theory Spec2Isabelle
  imports Complex_Main
begin

section \<open>The pipeline executor of pydpiper (\<open>pipeline_executor.py\<close>)\<close>

text \<open>
  A shallow embedding of the executor: the command-line defaults, the executor object
  and its methods, the stage runner, the main loop and the two shutdown paths.

  Conventions of the model.
  \<^item> Python floats (\<open>mem\<close>, wall-clock times, \<open>idle_time\<close>) are the \<^typ>\<open>real\<close> values
    of IEEE binary64 numbers, and every float addition and subtraction of the source
    rounds its exact result to the nearest such number (\<open>fadd\<close>, \<open>fsub\<close> below).
    Python ints are \<^typ>\<open>int\<close>; process ids are \<^typ>\<open>nat\<close>.
  \<^item> An attribute that may hold \<open>None\<close> is an \<open>option\<close>.
  \<^item> Everything the executor does to the outside world (remote calls to the server,
    worker-pool operations, signals) is appended, oldest first, to the field \<open>trace\<close>.
  \<^item> A Python exception is a value of \<open>error\<close>; a method that can raise returns an
    \<open>outcome\<close> together with the state the object is left in, since attribute updates
    made before the raise persist.
\<close>

subsection \<open>Floating point arithmetic\<close>

text \<open>
  A Python float is an IEEE binary64 number: zero, or \<open>m * 2 ^ e\<close> with an integer
  \<open>m\<close> of at most 53 bits and \<open>e \<ge> -1074\<close>. The numbers around \<open>x\<close> are spaced
  \<open>2 ^ ulp_exponent x\<close> apart. An arithmetic operation returns its exact result rounded
  to the nearest of them, a tie going to the even multiple (\<open>rne\<close>). Results too large
  for a finite float (infinities) and NaN are outside the model.
\<close>

definition rne :: "real \<Rightarrow> int" where
  "rne y =
     (let f = \<lfloor>y\<rfloor>; d = y - of_int f
      in if d < 1 / 2 then f
         else if 1 / 2 < d then f + 1
         else if even f then f else f + 1)"

definition ulp_exponent :: "real \<Rightarrow> int" where
  "ulp_exponent x = max (\<lfloor>log 2 \<bar>x\<bar>\<rfloor> - 52) (- 1074)"

definition round_double :: "real \<Rightarrow> real" where
  "round_double x =
     (if x = 0 then 0
      else of_int (rne (x / 2 powr of_int (ulp_exponent x))) * 2 powr of_int (ulp_exponent x))"

text \<open>A real number is a float if rounding leaves it alone.\<close>

definition is_double :: "real \<Rightarrow> bool" where
  "is_double x = (round_double x = x)"

definition fadd :: "real \<Rightarrow> real \<Rightarrow> real" where
  "fadd a b = round_double (a + b)"

definition fsub :: "real \<Rightarrow> real \<Rightarrow> real" where
  "fsub a b = round_double (a - b)"

subsection \<open>Data\<close>

datatype error =
    TypeError
  | CommunicationError
  | IOError
  | InvalidCmd string
  | KeyboardInterrupt

datatype event =
    RegisterClient string real
  | UnregisterClient string
  | UpdateClientTimestamp string
  | GetCommand string real int
  | GetStageMem int
  | GetStageProcs int
  | SetStageStarted int string
  | SetStageFinished int string
  | SetStageFailed int string
  | ApplyAsync int
  | PoolCreate int
  | PoolClose
  | PoolJoin
  | Kill nat
  | EventSet
  | DaemonShutdown

text \<open>
  \<open>class ChildProcess\<close>: \<open>stage\<close>, \<open>result\<close>, \<open>mem\<close>, \<open>procs\<close>. Of the
  \<open>AsyncResult\<close> in \<open>result\<close> the executor only ever asks \<open>ready()\<close>; the field
  \<open>result_ready\<close> is the answer it would give now. The reservation fields are prefixed
  because the executor has attributes \<open>mem\<close> and \<open>procs\<close> of its own.
\<close>

record ChildProcess =
  stage :: int
  result_ready :: bool
  child_mem :: real
  child_procs :: int

text \<open>The attributes of \<open>class pipelineExecutor\<close> that the modelled methods read or write.\<close>

record pipelineExecutor =
  mem :: real
  procs :: int
  idle_time :: real
  prev_time :: "real option"
  current_time :: "real option"
  time_to_seppuku :: "int option"
  time_to_accept_jobs :: "int option"
  connection_time_with_server :: "real option"
  runningMem :: real
  runningProcs :: int
  runningChildren :: "ChildProcess list"
  clientURI :: string
  serverURI :: string
  current_running_job_pids :: "nat list"
  registered_with_server :: bool
  trace :: "event list"

datatype outcome = Returned bool | Raised error

definition emit :: "event \<Rightarrow> pipelineExecutor \<Rightarrow> pipelineExecutor" where
  "emit e ex = ex\<lparr>trace := trace ex @ [e]\<rparr>"

subsection \<open>Command-line options (\<open>addExecutorArgumentGroup\<close>)\<close>

text \<open>
  What was given on the command line: \<open>None\<close> for a flag that was not passed.
  Only the options the executor core reads are kept.
\<close>

record cmdline =
  arg_num_exec :: "int option"
  arg_proc :: "int option"
  arg_mem :: "real option"
  arg_time_to_seppuku :: "int option"
  arg_time_to_accept_jobs :: "int option"
  arg_local :: bool

record options =
  num_exec :: int
  proc :: int
  opt_mem :: real
  opt_time_to_seppuku :: "int option"
  opt_time_to_accept_jobs :: "int option"
  local :: bool

text \<open>
  \<open>argparse\<close>: an option that is not passed takes its \<open>default=\<close>, and \<open>None\<close> when
  \<open>add_argument\<close> names no default (\<open>--time-to-accept-jobs\<close>).
\<close>

definition parse_args :: "cmdline \<Rightarrow> options" where
  "parse_args c =
     \<lparr>num_exec = (case arg_num_exec c of None \<Rightarrow> - 1 | Some n \<Rightarrow> n),
      proc = (case arg_proc c of None \<Rightarrow> 1 | Some n \<Rightarrow> n),
      opt_mem = (case arg_mem c of None \<Rightarrow> 6 | Some m \<Rightarrow> m),
      opt_time_to_seppuku = (case arg_time_to_seppuku c of None \<Rightarrow> Some 1 | Some n \<Rightarrow> Some n),
      opt_time_to_accept_jobs = arg_time_to_accept_jobs c,
      local = arg_local c\<rparr>"

text \<open>\<open>pipelineExecutor.__init__\<close>.\<close>

definition pipelineExecutor_init :: "options \<Rightarrow> pipelineExecutor" where
  "pipelineExecutor_init opts =
     \<lparr>mem = opt_mem opts,
      procs = proc opts,
      idle_time = 0,
      prev_time = None,
      current_time = None,
      time_to_seppuku = opt_time_to_seppuku opts,
      time_to_accept_jobs = opt_time_to_accept_jobs opts,
      connection_time_with_server = None,
      runningMem = 0,
      runningProcs = 0,
      runningChildren = [],
      clientURI = [],
      serverURI = [],
      current_running_job_pids = [],
      registered_with_server = False,
      trace = []\<rparr>"

subsection \<open>Resource ledger\<close>

definition canRun :: "pipelineExecutor \<Rightarrow> real \<Rightarrow> int \<Rightarrow> real \<Rightarrow> int \<Rightarrow> bool" where
  "canRun ex stageMem stageProcs runningMem' runningProcs' =
     (stageMem \<le> fsub (mem ex) runningMem' \<and> stageProcs \<le> procs ex - runningProcs')"

text \<open>
  \<open>free_resources\<close> is a \<open>for\<close> loop over \<open>self.runningChildren\<close> whose body removes
  from that same list. Python's list iterator keeps an index: each round it stops if the
  index has reached the current length, and otherwise yields the element at the index and
  advances it. \<open>list.remove(child)\<close> deletes the first entry that is \<open>child\<close>
  (\<open>ChildProcess\<close> defines no \<open>__eq__\<close>, so entries compare by identity); every entry
  is a distinct object made by \<open>mainFn\<close>, so that entry is the one just yielded, at the
  position \<open>idx\<close> it was read from.
\<close>

definition list_remove_at :: "nat \<Rightarrow> 'a list \<Rightarrow> 'a list" where
  "list_remove_at idx xs = take idx xs @ drop (Suc idx) xs"

function free_resources_loop :: "nat \<Rightarrow> pipelineExecutor \<Rightarrow> pipelineExecutor" where
  "free_resources_loop idx ex =
     (if idx < length (runningChildren ex) then
        (let child = runningChildren ex ! idx in
         if result_ready child then
           free_resources_loop (Suc idx)
             (ex\<lparr>runningMem := fsub (runningMem ex) (child_mem child),
                 runningProcs := runningProcs ex - child_procs child,
                 runningChildren := list_remove_at idx (runningChildren ex)\<rparr>)
         else free_resources_loop (Suc idx) ex)
      else ex)"
  by pat_completeness auto
termination
  by (relation "measure (\<lambda>(idx, ex). length (runningChildren ex) - idx)")
     (auto simp: list_remove_at_def)

definition free_resources :: "pipelineExecutor \<Rightarrow> pipelineExecutor" where
  "free_resources ex = free_resources_loop 0 ex"

subsection \<open>Timers\<close>

definition is_seppuku_time :: "pipelineExecutor \<Rightarrow> bool" where
  "is_seppuku_time ex =
     (case time_to_seppuku ex of
        None \<Rightarrow> False
      | Some minutes \<Rightarrow> real_of_int (minutes * 60) < idle_time ex)"

text \<open>
  \<open>is_time_to_drain\<close> reads the clock itself (\<open>now\<close>). \<open>divmod(x, 60)\<close> on a float
  gives the floor of \<open>x / 60\<close> as its first component (exactly so for the magnitudes
  of clock differences, below \<open>2 ^ 53\<close>). Subtracting a
  \<open>connection_time_with_server\<close> that is still \<open>None\<close> raises \<open>TypeError\<close>.
\<close>

definition is_time_to_drain :: "real \<Rightarrow> pipelineExecutor \<Rightarrow> error + bool" where
  "is_time_to_drain now ex =
     (case time_to_accept_jobs ex of
        None \<Rightarrow> Inr False
      | Some limit \<Rightarrow>
          (case connection_time_with_server ex of
             None \<Rightarrow> Inl TypeError
           | Some connected_at \<Rightarrow>
               (let time_take_so_far = fsub now connected_at;
                    minutes_so_far = \<lfloor>time_take_so_far / 60\<rfloor>
                in Inr (limit < minutes_so_far))))"

text \<open>
  \<open>idle\<close> returns \<open>... and self.prev_time\<close>; as a condition that last operand is
  false for \<open>None\<close> and for \<open>0.0\<close>.
\<close>

definition truthy :: "real option \<Rightarrow> bool" where
  "truthy t = (case t of None \<Rightarrow> False | Some v \<Rightarrow> v \<noteq> 0)"

definition idle :: "pipelineExecutor \<Rightarrow> bool" where
  "idle ex = (runningMem ex = 0 \<and> runningProcs ex = 0 \<and> truthy (prev_time ex))"

subsection \<open>Stage outcome reports\<close>

text \<open>
  \<open>notifyStageTerminated(i, returncode=None)\<close>: the argument is \<open>None\<close> when the
  caller passes no return code.
\<close>

definition notifyStageTerminated :: "int \<Rightarrow> int option \<Rightarrow> pipelineExecutor \<Rightarrow> pipelineExecutor" where
  "notifyStageTerminated i returncode ex =
     emit EventSet
       (if returncode = Some 0 then emit (SetStageFinished i (clientURI ex)) ex
        else emit (SetStageFailed i (clientURI ex)) ex)"

subsection \<open>One iteration of the main loop\<close>

text \<open>
  What the outside world supplies to one call of \<open>mainFn\<close>: the two clock readings
  (\<open>time.time()\<close> in \<open>mainFn\<close> and again in \<open>is_time_to_drain\<close>) and the server's
  answers. \<open>rpc_fails\<close> says that \<open>getCommand\<close> raises a communication error;
  \<open>stage_mem\<close> and \<open>stage_procs\<close> are what \<open>getStageMem(i)\<close> and
  \<open>getStageProcs(i)\<close> return, asked only after a \<open>run_stage\<close>.
\<close>

record tick =
  tick_time :: real
  drain_time :: real
  rpc_fails :: bool
  cmd :: string
  stage_i :: int
  stage_mem :: real
  stage_procs :: int

text \<open>
  The idle branch of \<open>mainFn\<close>: add the time since the previous tick, then log
  \<open>self.time_to_seppuku * 60\<close>. The arguments of \<open>logger.debug\<close> are evaluated before
  the call whatever the log level, and \<open>None * 60\<close> raises \<open>TypeError\<close>. When
  \<open>idle\<close> holds, \<open>prev_time\<close> is not \<open>None\<close>; a subtraction with \<open>None\<close> would
  raise \<open>TypeError\<close> as well.
\<close>

definition accrue_idle :: "pipelineExecutor \<Rightarrow> outcome \<times> pipelineExecutor" where
  "accrue_idle ex =
     (if idle ex then
        (case (current_time ex, prev_time ex) of
           (Some cur, Some prev) \<Rightarrow>
             (let ex' = ex\<lparr>idle_time := fadd (idle_time ex) (fsub cur prev)\<rparr>
              in case time_to_seppuku ex' of
                   None \<Rightarrow> (Raised TypeError, ex')
                 | Some minutes \<Rightarrow> (Returned True, ex'))
         | _ \<Rightarrow> (Raised TypeError, ex))
      else (Returned True, ex))"

definition dispatch :: "tick \<Rightarrow> pipelineExecutor \<Rightarrow> outcome \<times> pipelineExecutor" where
  "dispatch t ex =
     (let ex1 = emit (GetCommand (clientURI ex) (fsub (mem ex) (runningMem ex))
                        (procs ex - runningProcs ex)) ex
      in if rpc_fails t then (Raised CommunicationError, ex1)
         else if cmd t = ''shutdown_normally'' then (Returned False, ex1)
         else if cmd t = ''wait'' then (Returned True, ex1)
         else if cmd t = ''run_stage'' then
           (let i = stage_i t;
                ex2 = emit (GetStageProcs i) (emit (GetStageMem i) ex1);
                stageMem = stage_mem t;
                stageProcs = stage_procs t;
                ex3 = ex2\<lparr>idle_time := 0,
                          runningMem := fadd (runningMem ex2) stageMem,
                          runningProcs := runningProcs ex2 + stageProcs\<rparr>;
                ex4 = emit (ApplyAsync i) ex3;
                ex5 = ex4\<lparr>runningChildren := runningChildren ex4 @
                        [\<lparr>stage = i, result_ready = False,
                          child_mem = stageMem, child_procs = stageProcs\<rparr>]\<rparr>
            in (Returned True, ex5))
         else (Raised (InvalidCmd (cmd t)), ex1))"

definition mainFn :: "tick \<Rightarrow> pipelineExecutor \<Rightarrow> outcome \<times> pipelineExecutor" where
  "mainFn t ex =
     (let ex1 = ex\<lparr>prev_time := current_time ex, current_time := Some (tick_time t)\<rparr>;
          ex2 = free_resources ex1
      in case accrue_idle ex2 of
           (Raised e, ex3) \<Rightarrow> (Raised e, ex3)
         | (Returned b, ex3) \<Rightarrow>
             if is_seppuku_time ex3 then (Returned False, ex3)
             else (case is_time_to_drain (drain_time t) ex3 of
                     Inl e \<Rightarrow> (Raised e, ex3)
                   | Inr True \<Rightarrow> (Returned False, ex3)
                   | Inr False \<Rightarrow> dispatch t ex3))"

subsection \<open>Calls served by the executor's daemon thread\<close>

text \<open>
  The stage runner, in a worker process, calls back into the executor over Pyro:
  \<open>addPIDtoRunningList\<close>, \<open>removePIDfromRunningList\<close>, \<open>notifyStageTerminated\<close>.
  \<open>list.remove\<close> of a pid that is not in the list raises in the daemon's request
  handler; the error travels back to the remote caller and the list is unchanged.
  \<open>ResultReady i\<close> is the worker pool completing the \<open>AsyncResult\<close> of stage \<open>i\<close>.
\<close>

datatype callback =
    AddPID nat
  | RemovePID nat
  | StageTerminated int "int option"
  | ResultReady int

definition addPIDtoRunningList :: "nat \<Rightarrow> pipelineExecutor \<Rightarrow> pipelineExecutor" where
  "addPIDtoRunningList pid ex =
     ex\<lparr>current_running_job_pids := current_running_job_pids ex @ [pid]\<rparr>"

definition removePIDfromRunningList :: "nat \<Rightarrow> pipelineExecutor \<Rightarrow> pipelineExecutor" where
  "removePIDfromRunningList pid ex =
     ex\<lparr>current_running_job_pids := remove1 pid (current_running_job_pids ex)\<rparr>"

definition result_becomes_ready :: "int \<Rightarrow> pipelineExecutor \<Rightarrow> pipelineExecutor" where
  "result_becomes_ready i ex =
     ex\<lparr>runningChildren :=
          map (\<lambda>c. if stage c = i then c\<lparr>result_ready := True\<rparr> else c) (runningChildren ex)\<rparr>"

fun apply_callback :: "callback \<Rightarrow> pipelineExecutor \<Rightarrow> pipelineExecutor" where
  "apply_callback (AddPID pid) ex = addPIDtoRunningList pid ex"
| "apply_callback (RemovePID pid) ex = removePIDfromRunningList pid ex"
| "apply_callback (StageTerminated i rc) ex = notifyStageTerminated i rc ex"
| "apply_callback (ResultReady i) ex = result_becomes_ready i ex"

fun apply_callbacks :: "callback list \<Rightarrow> pipelineExecutor \<Rightarrow> pipelineExecutor" where
  "apply_callbacks [] ex = ex"
| "apply_callbacks (cb # cbs) ex = apply_callbacks cbs (apply_callback cb ex)"

subsection \<open>The stage runner (\<open>runStage\<close>)\<close>

text \<open>
  What happens to one stage in its worker: whether \<open>setStageStarted\<close> went through,
  and how the inner \<open>try\<close> block ended: \<open>Inl e\<close> when anything in it raised (fetching
  the command, opening the log file, spawning, waiting, closing), \<open>Inr ret\<close> when it ran
  to its end with \<open>ret = process.returncode\<close>. The reports reach the server through the
  executor, so they are recorded in the executor's trace. The result is \<open>Some e\<close> when
  \<open>runStage\<close> re-raises from its outer handler.
\<close>

record stage_run =
  started_ok :: bool
  body :: "error + int"

definition runStage :: "int \<Rightarrow> stage_run \<Rightarrow> pipelineExecutor \<Rightarrow> error option \<times> pipelineExecutor" where
  "runStage i run ex =
     (if \<not> started_ok run then (Some CommunicationError, ex)
      else
        (let ex1 = emit (SetStageStarted i (clientURI ex)) ex;
             ex2 = (case body run of
                      Inl e \<Rightarrow> notifyStageTerminated i None ex1
                    | Inr ret \<Rightarrow> notifyStageTerminated i (Some ret) ex1)
         in (None, emit (GetStageProcs i) (emit (GetStageMem i) ex2))))"

subsection \<open>The main loop\<close>

text \<open>
  \<open>mainLoop\<close> calls \<open>mainFn\<close> until it returns \<open>False\<close> or raises. The loop need not
  end, so its inputs are a list, one entry per round: the callbacks served since the
  previous round and the tick, or an operator interrupt. \<open>None\<close> means that the loop
  is still running when the inputs are used up.
\<close>

datatype loop_input = Interrupt | Round "callback list" tick

fun mainLoop :: "loop_input list \<Rightarrow> pipelineExecutor \<Rightarrow> (outcome \<times> pipelineExecutor) option" where
  "mainLoop [] ex = None"
| "mainLoop (Interrupt # rest) ex = Some (Raised KeyboardInterrupt, ex)"
| "mainLoop (Round cbs t # rest) ex =
     (case mainFn t (apply_callbacks cbs ex) of
        (Returned True, ex') \<Rightarrow> mainLoop rest ex'
      | (Returned False, ex') \<Rightarrow> Some (Returned False, ex')
      | (Raised e, ex') \<Rightarrow> Some (Raised e, ex'))"

text \<open>The state at the loop boundary reached after the given rounds.\<close>

fun boundary :: "loop_input list \<Rightarrow> pipelineExecutor \<Rightarrow> pipelineExecutor" where
  "boundary [] ex = ex"
| "boundary (Interrupt # rest) ex = ex"
| "boundary (Round cbs t # rest) ex =
     (case mainFn t (apply_callbacks cbs ex) of
        (Returned True, ex') \<Rightarrow> boundary rest ex'
      | (Returned False, ex') \<Rightarrow> ex'
      | (Raised e, ex') \<Rightarrow> ex')"

subsection \<open>Shutdown\<close>

text \<open>
  \<open>unregister_ok\<close> says whether the \<open>unregisterClient\<close> call returns; when it raises,
  so does the method. The result is the exception raised, if any.
\<close>

definition unregister_with_server :: "bool \<Rightarrow> pipelineExecutor \<Rightarrow> error option \<times> pipelineExecutor" where
  "unregister_with_server unregister_ok ex =
     (if registered_with_server ex then
        (let ex1 = ex\<lparr>registered_with_server := False\<rparr>;
             ex2 = emit (UnregisterClient (clientURI ex1)) ex1
         in (if unregister_ok then None else Some CommunicationError, ex2))
      else (None, ex))"

fun kill_all :: "nat list \<Rightarrow> pipelineExecutor \<Rightarrow> pipelineExecutor" where
  "kill_all [] ex = ex"
| "kill_all (subprocID # pids) ex = kill_all pids (emit (Kill subprocID) ex)"

definition generalShutdownCall :: "bool \<Rightarrow> pipelineExecutor \<Rightarrow> error option \<times> pipelineExecutor" where
  "generalShutdownCall unregister_ok ex =
     unregister_with_server unregister_ok (kill_all (current_running_job_pids ex) ex)"

definition completeAndExitChildren :: "bool \<Rightarrow> pipelineExecutor \<Rightarrow> error option \<times> pipelineExecutor" where
  "completeAndExitChildren unregister_ok ex =
     unregister_with_server unregister_ok
       (if length (current_running_job_pids ex) > 0 then emit PoolJoin (emit PoolClose ex)
        else ex)"

subsection \<open>Process entry points\<close>

text \<open>
  How a process ends: \<open>sys.exit(arg)\<close>, running off the end of its code, or an uncaught
  exception. \<open>sys.exit()\<close> without argument passes \<open>None\<close>, which the interpreter
  turns into exit status 0; an uncaught exception gives status 1.
\<close>

datatype process_end = SysExit "int option" | FellOffEnd | Uncaught error

fun exit_status :: "process_end \<Rightarrow> int" where
  "exit_status (SysExit None) = 0"
| "exit_status (SysExit (Some n)) = n"
| "exit_status FellOffEnd = 0"
| "exit_status (Uncaught e) = 1"

definition no_exec_message :: string where
  "no_exec_message = ''You need to specify some executors for this pipeline to run. Please use the --num-executors command line option. Exiting...''"

text \<open>\<open>noExecSpecified\<close>: what it prints, and how it ends the process if it does.\<close>

definition noExecSpecified :: "int \<Rightarrow> string list \<times> process_end option" where
  "noExecSpecified numExec =
     (if numExec < 0 then ([no_exec_message], Some (SysExit None)) else ([], None))"

text \<open>
  \<open>launchExecutor\<close>. \<open>server_lookup\<close> is the server URI found through the name server
  or the uri file, \<open>None\<close> when that raised; \<open>register_ok\<close> says whether
  \<open>registerClient\<close> returned. Both \<open>except\<close> clauses around \<open>mainLoop\<close> are kept:
  \<open>KeyboardInterrupt\<close> first, then \<open>Exception\<close>. An exception raised inside a handler
  leaves \<open>launchExecutor\<close> uncaught. Signals sent by \<open>os.kill\<close> are taken to be
  delivered. \<open>connect\<close> is a successful \<open>registerClient\<close> and the bookkeeping
  between it and the \<open>try\<close> block: the flag, the two URIs, the connection time and
  the pool. Its result is the state in which \<open>mainLoop\<close> is entered.
\<close>

record launch_env =
  server_lookup :: "string option"
  own_uri :: string
  register_ok :: bool
  connect_time :: real
  rounds :: "loop_input list"
  unregister_ok :: bool

definition connect :: "launch_env \<Rightarrow> string \<Rightarrow> pipelineExecutor \<Rightarrow> pipelineExecutor" where
  "connect env uri ex =
     (let ex1 = emit (RegisterClient (own_uri env) (mem ex)) ex;
          ex2 = ex1\<lparr>registered_with_server := True,
                     clientURI := own_uri env,
                     serverURI := uri,
                     connection_time_with_server := Some (connect_time env)\<rparr>
      in emit (PoolCreate (procs ex2)) ex2)"

definition launchExecutor :: "launch_env \<Rightarrow> pipelineExecutor \<Rightarrow> (process_end \<times> pipelineExecutor) option" where
  "launchExecutor env ex =
     (case server_lookup env of
        None \<Rightarrow> Some (Uncaught IOError, ex)
      | Some uri \<Rightarrow>
          (if \<not> register_ok env then
             Some (Uncaught CommunicationError, emit (RegisterClient (own_uri env) (mem ex)) ex)
           else
             (let ex3 = connect env uri ex
              in case mainLoop (rounds env) ex3 of
                   None \<Rightarrow> None
                 | Some (Raised KeyboardInterrupt, ex4) \<Rightarrow>
                     (case generalShutdownCall (unregister_ok env) ex4 of
                        (None, ex5) \<Rightarrow> Some (SysExit (Some 0), ex5)
                      | (Some e', ex5) \<Rightarrow> Some (Uncaught e', ex5))
                 | Some (Raised e, ex4) \<Rightarrow>
                     (case generalShutdownCall (unregister_ok env) ex4 of
                        (None, ex5) \<Rightarrow> Some (SysExit (Some 0), ex5)
                      | (Some e', ex5) \<Rightarrow> Some (Uncaught e', ex5))
                 | Some (Returned b, ex4) \<Rightarrow>
                     (case completeAndExitChildren (unregister_ok env) ex4 of
                        (None, ex5) \<Rightarrow> Some (FellOffEnd, emit DaemonShutdown ex5)
                      | (Some e', ex5) \<Rightarrow> Some (Uncaught e', ex5)))))"

text \<open>
  The script body under \<open>__main__\<close>: check the executor count, then start the
  executors (\<open>StartExecutors n\<close>: \<open>n\<close> local processes running \<open>launchExecutor\<close>, or
  \<open>n\<close> jobs handed to the batch system). Starting executors is the only way to
  server discovery.
\<close>

datatype script_step = Print string | StartExecutors nat

definition script_main :: "cmdline \<Rightarrow> script_step list \<times> process_end" where
  "script_main c =
     (let opts = parse_args c in
      case noExecSpecified (num_exec opts) of
        (out, Some ending) \<Rightarrow> (map Print out, ending)
      | (out, None) \<Rightarrow> (map Print out @ [StartExecutors (nat (num_exec opts))], FellOffEnd))"

subsection \<open>Shutdown racing with the heartbeat thread\<close>

text \<open>
  \<open>heartbeat\<close> runs in a thread of its own while the main thread runs
  \<open>unregister_with_server\<close>. Both are cut at their accesses to the shared flag
  \<open>registered_with_server\<close> and at their remote calls, and a schedule says which
  thread takes the next step. A thread that has finished takes no step.

  \<open>unregister_with_server\<close>: test the flag (\<open>U_test\<close>), clear it (\<open>U_unset\<close>), call
  \<open>unregisterClient\<close> (\<open>U_call\<close>). \<open>heartbeat\<close>: test the flag in the \<open>while\<close>
  condition (\<open>H_test\<close>), call \<open>updateClientTimestamp\<close> (\<open>H_call\<close>; the thread ends
  if the call raises), sleep (\<open>H_sleep\<close>). The history records, oldest first, the
  write to the flag, the heartbeat's reads of it and the remote calls.
\<close>

datatype unregister_pc = U_test | U_unset | U_call | U_done

datatype heartbeat_pc = H_test | H_call | H_sleep | H_done

datatype observation =
    Unset
  | Unregister
  | HeartbeatRead bool
  | HeartbeatCall

record race =
  registered :: bool
  unregister_at :: unregister_pc
  heartbeat_at :: heartbeat_pc
  history :: "observation list"

datatype turn = MainThread | HeartbeatThread bool

definition unregister_step :: "race \<Rightarrow> race" where
  "unregister_step c =
     (case unregister_at c of
        U_test \<Rightarrow> c\<lparr>unregister_at := (if registered c then U_unset else U_done)\<rparr>
      | U_unset \<Rightarrow> c\<lparr>registered := False, unregister_at := U_call,
                      history := history c @ [Unset]\<rparr>
      | U_call \<Rightarrow> c\<lparr>unregister_at := U_done, history := history c @ [Unregister]\<rparr>
      | U_done \<Rightarrow> c)"

text \<open>The argument says whether \<open>updateClientTimestamp\<close> raises, should this step be the call.\<close>

definition heartbeat_step :: "bool \<Rightarrow> race \<Rightarrow> race" where
  "heartbeat_step raises c =
     (case heartbeat_at c of
        H_test \<Rightarrow> c\<lparr>heartbeat_at := (if registered c then H_call else H_done),
                     history := history c @ [HeartbeatRead (registered c)]\<rparr>
      | H_call \<Rightarrow> c\<lparr>heartbeat_at := (if raises then H_done else H_sleep),
                     history := history c @ [HeartbeatCall]\<rparr>
      | H_sleep \<Rightarrow> c\<lparr>heartbeat_at := H_test\<rparr>
      | H_done \<Rightarrow> c)"

fun race_step :: "turn \<Rightarrow> race \<Rightarrow> race" where
  "race_step MainThread c = unregister_step c"
| "race_step (HeartbeatThread raises) c = heartbeat_step raises c"

fun race_run :: "turn list \<Rightarrow> race \<Rightarrow> race" where
  "race_run [] c = c"
| "race_run (t # ts) c = race_run ts (race_step t c)"

text \<open>
  The start: the executor is registered, \<open>unregister_with_server\<close> is about to be
  entered, and the heartbeat thread is anywhere in its loop.
\<close>

definition race_start :: "heartbeat_pc \<Rightarrow> race" where
  "race_start h = \<lparr>registered = True, unregister_at = U_test, heartbeat_at = h, history = []\<rparr>"

subsection \<open>Properties of states and histories\<close>

text \<open>
  The process counter agrees with the list of children: it is the sum of their process
  reservations, none of which is negative. (The memory counter is a float and is not
  the exact sum of anything.)
\<close>

definition nonneg_procs :: "ChildProcess \<Rightarrow> bool" where
  "nonneg_procs c = (0 \<le> child_procs c)"

definition zero_procs :: "ChildProcess \<Rightarrow> bool" where
  "zero_procs c = (child_procs c = 0)"

definition procs_ledger_ok :: "pipelineExecutor \<Rightarrow> bool" where
  "procs_ledger_ok ex =
     (runningProcs ex = sum_list (map child_procs (runningChildren ex)) \<and>
      list_all nonneg_procs (runningChildren ex))"

definition idle_inv :: "pipelineExecutor \<Rightarrow> bool" where
  "idle_inv ex = (procs_ledger_ok ex \<and> (idle_time ex \<noteq> 0 \<longrightarrow> runningProcs ex = 0))"

text \<open>
  The state in which \<open>mainFn\<close> tests \<open>idle\<close>: the tick is recorded and the completed
  children are swept.
\<close>

definition after_sweep :: "tick \<Rightarrow> pipelineExecutor \<Rightarrow> pipelineExecutor" where
  "after_sweep t ex =
     free_resources (ex\<lparr>prev_time := current_time ex, current_time := Some (tick_time t)\<rparr>)"

text \<open>A round in which the server reports no negative process count.\<close>

fun nonneg_round :: "loop_input \<Rightarrow> bool" where
  "nonneg_round Interrupt = True"
| "nonneg_round (Round cbs t) = (0 \<le> stage_procs t)"

text \<open>
  Three properties of a history of the race: every \<open>Unregister\<close> has an \<open>Unset\<close>
  before it; some heartbeat read of the flag comes after an \<open>Unset\<close>; every heartbeat
  read that comes after an \<open>Unset\<close> reads \<open>False\<close> and no heartbeat call follows it.
\<close>

definition unset_precedes_unregister :: "observation list \<Rightarrow> bool" where
  "unset_precedes_unregister h =
     (\<forall>pre post. h = pre @ Unregister # post \<longrightarrow> Unset \<in> set pre)"

definition read_after_unset :: "observation list \<Rightarrow> bool" where
  "read_after_unset h = (\<exists>pre mid b post. h = pre @ Unset # mid @ HeartbeatRead b # post)"

definition late_reads_quiet :: "observation list \<Rightarrow> bool" where
  "late_reads_quiet h =
     (\<forall>pre mid b post. h = pre @ Unset # mid @ HeartbeatRead b # post \<longrightarrow>
        \<not> b \<and> HeartbeatCall \<notin> set post)"

definition race_inv :: "race \<Rightarrow> bool" where
  "race_inv c =
     ((if unregister_at c = U_test \<or> unregister_at c = U_unset
       then registered c \<and> Unset \<notin> set (history c) \<and> Unregister \<notin> set (history c)
       else \<not> registered c \<and> Unset \<in> set (history c)) \<and>
      (if read_after_unset (history c) then heartbeat_at c = H_done else True) \<and>
      (if heartbeat_at c = H_call then \<not> read_after_unset (history c) else True) \<and>
      unset_precedes_unregister (history c) \<and>
      late_reads_quiet (history c))"

subsection \<open>Concrete scenarios\<close>

text \<open>
  Inputs for the worked examples below: a command line with no flag passed, the three
  answers of the server at a given clock reading, and an environment in which discovery,
  registration and unregistration succeed and the executor connects at time 1000.
\<close>

definition no_flags :: cmdline where
  "no_flags = \<lparr>arg_num_exec = None, arg_proc = None, arg_mem = None,
                arg_time_to_seppuku = None, arg_time_to_accept_jobs = None,
                arg_local = False\<rparr>"

definition wait_tick :: "real \<Rightarrow> tick" where
  "wait_tick now = \<lparr>tick_time = now, drain_time = now, rpc_fails = False, cmd = ''wait'',
                     stage_i = 0, stage_mem = 0, stage_procs = 0\<rparr>"

definition shutdown_tick :: "real \<Rightarrow> tick" where
  "shutdown_tick now = \<lparr>tick_time = now, drain_time = now, rpc_fails = False,
                         cmd = ''shutdown_normally'', stage_i = 0, stage_mem = 0,
                         stage_procs = 0\<rparr>"

definition run_stage_tick :: "real \<Rightarrow> int \<Rightarrow> real \<Rightarrow> int \<Rightarrow> tick" where
  "run_stage_tick now i m p = \<lparr>tick_time = now, drain_time = now, rpc_fails = False,
                                cmd = ''run_stage'', stage_i = i, stage_mem = m,
                                stage_procs = p\<rparr>"

text \<open>The floats written \<open>0.1\<close>, \<open>5.9\<close> and \<open>1e-16\<close> in Python.\<close>

definition double_0_1 :: real where
  "double_0_1 = 3602879701896397 / 36028797018963968"

definition double_5_9 :: real where
  "double_5_9 = 3321404725185741 / 562949953421312"

definition double_1e_16 :: real where
  "double_1e_16 = 2028240960365167 / 20282409603651670423947251286016"

definition server_uri :: string where
  "server_uri = ''PYRO:pipeline@server''"

definition test_env :: "loop_input list \<Rightarrow> launch_env" where
  "test_env rs = \<lparr>server_lookup = Some server_uri, own_uri = ''PYRO:executor@node'',
                   register_ok = True, connect_time = 1000, rounds = rs,
                   unregister_ok = True\<rparr>"

definition started :: "options \<Rightarrow> pipelineExecutor" where
  "started opts = connect (test_env []) server_uri (pipelineExecutor_init opts)"

section \<open>Auxiliary facts\<close>

subsection \<open>Rounding\<close>

lemma rne_of_int: "rne (of_int n) = n"
  by (simp add: rne_def)

lemma rne_ge_floor: "\<lfloor>y\<rfloor> \<le> rne y"
  by (simp add: rne_def Let_def)

lemma rne_le_ceiling: "rne y \<le> \<lfloor>y\<rfloor> + 1"
  by (simp add: rne_def Let_def)

lemma floor_log2_eq:
  assumes "2 powr of_int k \<le> \<bar>x\<bar>" "\<bar>x\<bar> < 2 powr of_int (k + 1)"
  shows "\<lfloor>log 2 \<bar>x\<bar>\<rfloor> = k"
proof -
  have p: "0 < \<bar>x\<bar>" using assms(1) by (smt (verit) powr_gt_zero)
  have "of_int k \<le> log 2 \<bar>x\<bar>" using assms(1) p by (simp add: le_log_iff)
  moreover have "log 2 \<bar>x\<bar> < of_int (k + 1)" using assms(2) p by (simp add: log_less_iff)
  ultimately show ?thesis by (simp add: floor_eq_iff)
qed

lemma ulp_exponent_small:
  assumes "x \<noteq> 0" "\<bar>x\<bar> < 9007199254740992"
  shows "ulp_exponent x \<le> 0"
proof -
  have "log 2 \<bar>x\<bar> < 53"
  proof -
    have "\<bar>x\<bar> < 2 powr 53" using assms(2) by simp
    then show ?thesis using assms(1) by (simp add: log_less_iff)
  qed
  then have "\<lfloor>log 2 \<bar>x\<bar>\<rfloor> \<le> 52" by (simp add: floor_le_iff)
  then show ?thesis by (simp add: ulp_exponent_def)
qed

lemma powr_of_nonpos_int:
  assumes "e \<le> 0"
  shows "(2::real) powr of_int e = 1 / 2 ^ nat (- e)"
proof -
  have "(2::real) powr of_int e = 2 powr (- real (nat (- e)))" using assms by simp
  also have "\<dots> = 1 / 2 powr real (nat (- e))" by (simp add: powr_minus_divide)
  also have "\<dots> = 1 / 2 ^ nat (- e)" by (simp add: powr_realpow)
  finally show ?thesis .
qed

lemma round_double_int:
  assumes "x \<in> \<int>" "\<bar>x\<bar> < 9007199254740992"
  shows "round_double x = x"
proof (cases "x = 0")
  case True
  then show ?thesis by (simp add: round_double_def)
next
  case False
  from assms(1) obtain n where n: "x = of_int n" by (auto elim: Ints_cases)
  let ?e = "ulp_exponent x"
  have e: "?e \<le> 0" using False assms(2) by (rule ulp_exponent_small)
  have p: "(2::real) powr of_int ?e = 1 / 2 ^ nat (- ?e)" using e by (rule powr_of_nonpos_int)
  have "x / 2 powr of_int ?e = of_int (n * 2 ^ nat (- ?e))" unfolding p by (simp add: n)
  then have "rne (x / 2 powr of_int ?e) = n * 2 ^ nat (- ?e)" by (simp only: rne_of_int)
  then have "round_double x = of_int (n * 2 ^ nat (- ?e)) * (1 / 2 ^ nat (- ?e))"
    using False unfolding round_double_def p by simp
  then show ?thesis by (simp add: n)
qed

lemma fadd_int: "a \<in> \<int> \<Longrightarrow> b \<in> \<int> \<Longrightarrow> \<bar>a + b\<bar> < 9007199254740992 \<Longrightarrow> fadd a b = a + b"
  by (simp add: fadd_def round_double_int)

lemma fsub_int: "a \<in> \<int> \<Longrightarrow> b \<in> \<int> \<Longrightarrow> \<bar>a - b\<bar> < 9007199254740992 \<Longrightarrow> fsub a b = a - b"
  by (simp add: fsub_def round_double_int)

lemma round_double_eval:
  assumes "2 powr of_int k \<le> \<bar>x\<bar>" "\<bar>x\<bar> < 2 powr of_int (k + 1)" "- 1022 \<le> k"
  shows "round_double x = of_int (rne (x / 2 powr of_int (k - 52))) * 2 powr of_int (k - 52)"
proof -
  have "x \<noteq> 0" using assms(1) by (smt (verit) powr_gt_zero)
  moreover have "ulp_exponent x = k - 52"
    using floor_log2_eq [OF assms(1,2)] assms(3) by (simp add: ulp_exponent_def)
  ultimately show ?thesis by (simp add: round_double_def)
qed

lemma ulp_exponent_mono:
  assumes "s \<noteq> 0" "\<bar>s\<bar> \<le> \<bar>x\<bar>"
  shows "ulp_exponent s \<le> ulp_exponent x"
proof -
  have "log 2 \<bar>s\<bar> \<le> log 2 \<bar>x\<bar>" using assms by simp
  then have "\<lfloor>log 2 \<bar>s\<bar>\<rfloor> \<le> \<lfloor>log 2 \<bar>x\<bar>\<rfloor>" by (rule floor_mono)
  then show ?thesis by (simp add: ulp_exponent_def)
qed

lemma powr_floor_log_le:
  assumes "x \<noteq> 0"
  shows "2 powr of_int \<lfloor>log 2 \<bar>x\<bar>\<rfloor> \<le> \<bar>x\<bar>"
proof -
  have "2 powr of_int \<lfloor>log 2 \<bar>x\<bar>\<rfloor> \<le> 2 powr log 2 \<bar>x\<bar>" by (intro powr_mono) simp_all
  also have "\<dots> = \<bar>x\<bar>" using assms by simp
  finally show ?thesis .
qed

lemma less_powr_floor_log:
  assumes "x \<noteq> 0"
  shows "\<bar>x\<bar> < 2 powr of_int (\<lfloor>log 2 \<bar>x\<bar>\<rfloor> + 1)"
proof -
  have "\<bar>x\<bar> = 2 powr log 2 \<bar>x\<bar>" using assms by simp
  also have "\<dots> < 2 powr of_int (\<lfloor>log 2 \<bar>x\<bar>\<rfloor> + 1)" by (intro powr_less_mono) simp_all
  finally show ?thesis .
qed

lemma powr_of_nonneg_int:
  assumes "0 \<le> j"
  shows "(2::real) powr of_int j = of_int (2 ^ nat j)"
proof -
  have "(2::real) powr of_int j = 2 powr real (nat j)" using assms by simp
  also have "\<dots> = 2 ^ nat j" by (simp add: powr_realpow)
  finally show ?thesis by simp
qed

lemma grid_le_round_double:
  assumes "x \<noteq> 0" "s = of_int N * 2 powr of_int (ulp_exponent x)" "s \<le> x"
  shows "s \<le> round_double x"
proof -
  let ?u = "2 powr of_int (ulp_exponent x) :: real"
  have u: "0 < ?u" by simp
  have "of_int N \<le> x / ?u" using assms(2,3) u by (simp add: pos_le_divide_eq)
  then have "N \<le> \<lfloor>x / ?u\<rfloor>" by (simp add: le_floor_iff)
  also have "\<dots> \<le> rne (x / ?u)" by (rule rne_ge_floor)
  finally have "of_int N * ?u \<le> of_int (rne (x / ?u)) * ?u" using u by simp
  then show ?thesis using assms(1,2) by (simp add: round_double_def)
qed

lemma is_double_grid:
  assumes "is_double s" "s \<noteq> 0"
  shows "s = of_int (rne (s / 2 powr of_int (ulp_exponent s))) * 2 powr of_int (ulp_exponent s)"
  using assms by (simp add: is_double_def round_double_def)

lemma round_double_mono_double:
  assumes "is_double s" "s \<le> x"
  shows "s \<le> round_double x"
proof -
  let ?e = "ulp_exponent x" and ?k = "ulp_exponent s"
  let ?u = "2 powr of_int ?e :: real"
  consider "x = 0" | "x \<noteq> 0" "s \<le> 0" "0 < x" | "0 < s" | "x < 0" using assms(2) by linarith
  then show ?thesis
  proof cases
    case 1
    then show ?thesis using assms(2) by (simp add: round_double_def)
  next
    case 2
    have "0 \<le> round_double x"
      using grid_le_round_double [of x 0 0] 2 by simp
    then show ?thesis using 2 by simp
  next
    case 3
    then have x: "x \<noteq> 0" "0 < x" and s: "s \<noteq> 0" using assms(2) by simp_all
    have ke: "?k \<le> ?e" using s 3 assms(2) by (intro ulp_exponent_mono) simp_all
    show ?thesis
    proof (cases "?k = ?e")
      case True
      have "s = of_int (rne (s / 2 powr of_int ?k)) * 2 powr of_int ?e"
        using is_double_grid [OF assms(1) s] True by simp
      from grid_le_round_double [OF x(1) this assms(2)] show ?thesis .
    next
      case False
      with ke have lt: "?k < ?e" by simp
      have "- 1074 \<le> ?k" by (simp add: ulp_exponent_def)
      with lt have e: "?e = \<lfloor>log 2 \<bar>x\<bar>\<rfloor> - 52" unfolding ulp_exponent_def by linarith
      have "\<lfloor>log 2 \<bar>s\<bar>\<rfloor> - 52 \<le> ?k" by (simp add: ulp_exponent_def)
      with lt have "\<lfloor>log 2 \<bar>s\<bar>\<rfloor> + 1 \<le> ?e + 52" by simp
      then have "2 powr of_int (\<lfloor>log 2 \<bar>s\<bar>\<rfloor> + 1) \<le> (2::real) powr of_int (?e + 52)"
        by (intro powr_mono) simp_all
      with less_powr_floor_log [OF s] have sL: "s < 2 powr of_int (?e + 52)" by linarith
      have "?e + 52 = \<lfloor>log 2 \<bar>x\<bar>\<rfloor>" using e by simp
      then have "2 powr of_int (?e + 52) \<le> \<bar>x\<bar>"
        using powr_floor_log_le [OF x(1)] by (simp only:)
      then have Lx: "2 powr of_int (?e + 52) \<le> x" using x(2) by linarith
      have "(2::real) powr of_int (?e + 52) = 2 powr 52 * ?u"
        by (simp add: powr_add)
      then have L: "(2::real) powr of_int (?e + 52) = of_int 4503599627370496 * ?u" by simp
      from grid_le_round_double [OF x(1) L Lx] sL show ?thesis by simp
    qed
  next
    case 4
    then have x: "x \<noteq> 0" and s: "s \<noteq> 0" "s < 0" using assms(2) by simp_all
    have ek: "?e \<le> ?k" using x 4 assms(2) by (intro ulp_exponent_mono) simp_all
    let ?M = "rne (s / 2 powr of_int ?k)"
    have "(2::real) powr of_int ?k = 2 powr of_int (?k - ?e) * ?u"
      by (simp add: powr_add [symmetric])
    also have "\<dots> = of_int (2 ^ nat (?k - ?e)) * ?u"
      using ek by (simp only: powr_of_nonneg_int)
    finally have "s = of_int (?M * 2 ^ nat (?k - ?e)) * ?u"
      using is_double_grid [OF assms(1) s(1)] by simp
    from grid_le_round_double [OF x this assms(2)] show ?thesis .
  qed
qed

text \<open>Rounding at the floats of the worked examples.\<close>

lemma is_double_0_1: "is_double double_0_1"
proof -
  have a: "2 powr of_int (- 4) \<le> \<bar>double_0_1\<bar>"
    by (simp add: double_0_1_def powr_neg_numeral)
  have b: "\<bar>double_0_1\<bar> < 2 powr of_int (- 4 + 1)"
    by (simp add: double_0_1_def powr_neg_numeral)
  have p: "(2::real) powr of_int (- 4 - 52) = 1 / 72057594037927936"
    using powr_of_nonpos_int [of "- 56"] by simp
  have r: "rne (double_0_1 / (1 / 72057594037927936)) = 7205759403792794"
    by (simp add: rne_def Let_def double_0_1_def)
  have "round_double double_0_1 =
      of_int (rne (double_0_1 / 2 powr of_int (- 4 - 52))) * 2 powr of_int (- 4 - 52)"
    using a b by (rule round_double_eval) simp
  also have "\<dots> = double_0_1" unfolding p r by (simp add: double_0_1_def)
  finally show ?thesis by (simp add: is_double_def)
qed

lemma is_double_5_9: "is_double double_5_9"
proof -
  have a: "2 powr of_int 2 \<le> \<bar>double_5_9\<bar>" by (simp add: double_5_9_def)
  have b: "\<bar>double_5_9\<bar> < 2 powr of_int (2 + 1)" by (simp add: double_5_9_def)
  have p: "(2::real) powr of_int (2 - 52) = 1 / 1125899906842624"
    using powr_of_nonpos_int [of "- 50"] by simp
  have r: "rne (double_5_9 / (1 / 1125899906842624)) = 6642809450371482"
    by (simp add: rne_def Let_def double_5_9_def)
  have "round_double double_5_9 =
      of_int (rne (double_5_9 / 2 powr of_int (2 - 52))) * 2 powr of_int (2 - 52)"
    using a b by (rule round_double_eval) simp
  also have "\<dots> = double_5_9" unfolding p r by (simp add: double_5_9_def)
  finally show ?thesis by (simp add: is_double_def)
qed

lemma is_double_1e_16: "is_double double_1e_16"
proof -
  have a: "2 powr of_int (- 54) \<le> \<bar>double_1e_16\<bar>"
    by (simp add: double_1e_16_def powr_neg_numeral)
  have b: "\<bar>double_1e_16\<bar> < 2 powr of_int (- 54 + 1)"
    by (simp add: double_1e_16_def powr_neg_numeral)
  have p: "(2::real) powr of_int (- 54 - 52) = 1 / 81129638414606681695789005144064"
    using powr_of_nonpos_int [of "- 106"] by simp
  have r: "rne (double_1e_16 / (1 / 81129638414606681695789005144064)) = 8112963841460668"
    by (simp add: rne_def Let_def double_1e_16_def)
  have "round_double double_1e_16 =
      of_int (rne (double_1e_16 / 2 powr of_int (- 54 - 52))) * 2 powr of_int (- 54 - 52)"
    using a b by (rule round_double_eval) simp
  also have "\<dots> = double_1e_16" unfolding p r by (simp add: double_1e_16_def)
  finally show ?thesis by (simp add: is_double_def)
qed

text \<open>\<open>6.0 - 0.1\<close> is \<open>5.9\<close>, although the exact difference is smaller.\<close>

lemma fsub_6_double_0_1: "fsub 6 double_0_1 = double_5_9"
proof -
  let ?x = "212569902411887411 / 36028797018963968 :: real"
  have a: "2 powr of_int 2 \<le> \<bar>?x\<bar>" by simp
  have b: "\<bar>?x\<bar> < 2 powr of_int (2 + 1)" by simp
  have p: "(2::real) powr of_int (2 - 52) = 1 / 1125899906842624"
    using powr_of_nonpos_int [of "- 50"] by simp
  have r: "rne (?x / (1 / 1125899906842624)) = 6642809450371482"
    by (simp add: rne_def Let_def)
  have "round_double ?x = of_int (rne (?x / 2 powr of_int (2 - 52))) * 2 powr of_int (2 - 52)"
    using a b by (rule round_double_eval) simp
  also have "\<dots> = double_5_9" unfolding p r by (simp add: double_5_9_def)
  finally show ?thesis by (simp add: fsub_def double_0_1_def)
qed

text \<open>\<open>6.0 + 1e-16\<close> is \<open>6.0\<close>: the small reservation is absorbed.\<close>

lemma fadd_6_double_1e_16: "fadd 6 double_1e_16 = 6"
proof -
  let ?x = "6 + double_1e_16"
  have a: "2 powr of_int 2 \<le> \<bar>?x\<bar>" by (simp add: double_1e_16_def)
  have b: "\<bar>?x\<bar> < 2 powr of_int (2 + 1)" by (simp add: double_1e_16_def)
  have p: "(2::real) powr of_int (2 - 52) = 1 / 1125899906842624"
    using powr_of_nonpos_int [of "- 50"] by simp
  have r: "rne (?x / (1 / 1125899906842624)) = 6755399441055744"
    by (simp add: rne_def Let_def double_1e_16_def)
  have "round_double ?x = of_int (rne (?x / 2 powr of_int (2 - 52))) * 2 powr of_int (2 - 52)"
    using a b by (rule round_double_eval) simp
  also have "\<dots> = 6" unfolding p r by simp
  finally show ?thesis by (simp add: fadd_def)
qed

lemmas float_int = fadd_int fsub_int

text \<open>Unfolding sets for the worked examples, whose arithmetic is on small integers.\<close>

lemmas scenario_defs =
  no_flags_def wait_tick_def shutdown_tick_def run_stage_tick_def server_uri_def
  test_env_def started_def parse_args_def pipelineExecutor_init_def connect_def emit_def

lemmas mainFn_defs =
  mainFn_def free_resources_def accrue_idle_def idle_def truthy_def is_seppuku_time_def
  is_time_to_drain_def dispatch_def list_remove_at_def Let_def float_int

lemma is_double_int: "x \<in> \<int> \<Longrightarrow> \<bar>x\<bar> < 9007199254740992 \<Longrightarrow> is_double x"
  by (simp add: is_double_def round_double_int)

subsection \<open>The sweep over the running children\<close>

declare free_resources_loop.simps [simp del]

lemma free_resources_loop_done:
  "\<not> idx < length (runningChildren ex) \<Longrightarrow> free_resources_loop idx ex = ex"
  by (simp add: free_resources_loop.simps [of idx ex])

lemma free_resources_loop_ready:
  "idx < length (runningChildren ex) \<Longrightarrow> result_ready (runningChildren ex ! idx) \<Longrightarrow>
   free_resources_loop idx ex =
     free_resources_loop (Suc idx)
       (ex\<lparr>runningMem := fsub (runningMem ex) (child_mem (runningChildren ex ! idx)),
           runningProcs := runningProcs ex - child_procs (runningChildren ex ! idx),
           runningChildren := list_remove_at idx (runningChildren ex)\<rparr>)"
  by (simp add: free_resources_loop.simps [of idx ex] Let_def)

lemma free_resources_loop_skip:
  "idx < length (runningChildren ex) \<Longrightarrow> \<not> result_ready (runningChildren ex ! idx) \<Longrightarrow>
   free_resources_loop idx ex = free_resources_loop (Suc idx) ex"
  by (simp add: free_resources_loop.simps [of idx ex] Let_def)

lemma sum_list_remove_at:
  fixes f :: "'a \<Rightarrow> 'b::ab_group_add"
  assumes "idx < length xs"
  shows "sum_list (map f (list_remove_at idx xs)) = sum_list (map f xs) - f (xs ! idx)"
proof -
  have "sum_list (map f xs) = sum_list (map f (take idx xs @ xs ! idx # drop (Suc idx) xs))"
    using id_take_nth_drop [OF assms] by simp
  then show ?thesis by (simp add: list_remove_at_def)
qed

lemma list_all_remove_at: "list_all P xs \<Longrightarrow> list_all P (list_remove_at idx xs)"
  unfolding list_remove_at_def list_all_iff
  by (auto dest: in_set_takeD in_set_dropD)

lemma set_remove_at: "set (list_remove_at idx xs) \<subseteq> set xs"
  by (auto simp: list_remove_at_def dest: in_set_takeD in_set_dropD)

text \<open>The sweep changes the two counters and the list of children, and nothing else.\<close>

lemma free_resources_loop_frame:
  "free_resources_loop idx ex =
     ex\<lparr>runningMem := runningMem (free_resources_loop idx ex),
        runningProcs := runningProcs (free_resources_loop idx ex),
        runningChildren := runningChildren (free_resources_loop idx ex)\<rparr>"
proof (induction idx ex rule: free_resources_loop.induct)
  case (1 idx ex)
  show ?case
  proof (cases "idx < length (runningChildren ex)")
    case False
    then show ?thesis by (simp add: free_resources_loop_done)
  next
    case True
    note lt = this
    show ?thesis
    proof (cases "result_ready (runningChildren ex ! idx)")
      case True
      let ?ex' = "ex\<lparr>runningMem := fsub (runningMem ex) (child_mem (runningChildren ex ! idx)),
                 runningProcs := runningProcs ex - child_procs (runningChildren ex ! idx),
                 runningChildren := list_remove_at idx (runningChildren ex)\<rparr>"
      have e: "free_resources_loop idx ex = free_resources_loop (Suc idx) ?ex'"
        using lt True by (rule free_resources_loop_ready)
      have "free_resources_loop (Suc idx) ?ex' =
          ?ex'\<lparr>runningMem := runningMem (free_resources_loop (Suc idx) ?ex'),
               runningProcs := runningProcs (free_resources_loop (Suc idx) ?ex'),
               runningChildren := runningChildren (free_resources_loop (Suc idx) ?ex')\<rparr>"
        using "1.IH"(1) [OF lt refl True] .
      then show ?thesis unfolding e by simp
    next
      case False
      have e: "free_resources_loop idx ex = free_resources_loop (Suc idx) ex"
        using lt False by (rule free_resources_loop_skip)
      show ?thesis unfolding e using "1.IH"(2) [OF lt refl False] .
    qed
  qed
qed

text \<open>What is subtracted from the process counter is what the removed children reserved.\<close>

lemma free_resources_loop_ledger:
  "procs_ledger_ok ex \<Longrightarrow> procs_ledger_ok (free_resources_loop idx ex)"
proof (induction idx ex rule: free_resources_loop.induct)
  case (1 idx ex)
  show ?case
  proof (cases "idx < length (runningChildren ex)")
    case False
    then show ?thesis using "1.prems" by (simp add: free_resources_loop_done)
  next
    case True
    note lt = this
    show ?thesis
    proof (cases "result_ready (runningChildren ex ! idx)")
      case True
      let ?ex' = "ex\<lparr>runningMem := fsub (runningMem ex) (child_mem (runningChildren ex ! idx)),
                 runningProcs := runningProcs ex - child_procs (runningChildren ex ! idx),
                 runningChildren := list_remove_at idx (runningChildren ex)\<rparr>"
      have e: "free_resources_loop idx ex = free_resources_loop (Suc idx) ?ex'"
        using lt True by (rule free_resources_loop_ready)
      have "procs_ledger_ok ?ex'"
        using "1.prems" lt
        by (simp add: procs_ledger_ok_def sum_list_remove_at list_all_remove_at)
      then show ?thesis unfolding e using "1.IH"(1) [OF lt refl True] by simp
    next
      case False
      have e: "free_resources_loop idx ex = free_resources_loop (Suc idx) ex"
        using lt False by (rule free_resources_loop_skip)
      show ?thesis unfolding e using "1.IH"(2) [OF lt refl False] "1.prems" by simp
    qed
  qed
qed

lemma procs_ledger_zero:
  assumes "procs_ledger_ok ex"
  shows "(runningProcs ex = 0) = list_all zero_procs (runningChildren ex)"
proof -
  have "(sum_list (map child_procs (runningChildren ex)) = 0)
      = (\<forall>c\<in>set (runningChildren ex). child_procs c = 0)"
    using sum_list_nonneg_eq_0_iff [of "map child_procs (runningChildren ex)"] assms
    by (auto simp: procs_ledger_ok_def nonneg_procs_def list_all_iff)
  then show ?thesis using assms by (simp add: procs_ledger_ok_def zero_procs_def list_all_iff)
qed

lemma free_resources_loop_children:
  "set (runningChildren (free_resources_loop idx ex)) \<subseteq> set (runningChildren ex)"
proof (induction idx ex rule: free_resources_loop.induct)
  case (1 idx ex)
  show ?case
  proof (cases "idx < length (runningChildren ex)")
    case False
    then show ?thesis by (simp add: free_resources_loop_done)
  next
    case True
    note lt = this
    show ?thesis
    proof (cases "result_ready (runningChildren ex ! idx)")
      case True
      let ?ex' = "ex\<lparr>runningMem := fsub (runningMem ex) (child_mem (runningChildren ex ! idx)),
                 runningProcs := runningProcs ex - child_procs (runningChildren ex ! idx),
                 runningChildren := list_remove_at idx (runningChildren ex)\<rparr>"
      have e: "free_resources_loop idx ex = free_resources_loop (Suc idx) ?ex'"
        using lt True by (rule free_resources_loop_ready)
      have "set (runningChildren ?ex') \<subseteq> set (runningChildren ex)"
        using set_remove_at [of idx "runningChildren ex"] by simp
      then show ?thesis unfolding e using "1.IH"(1) [OF lt refl True] by blast
    next
      case False
      have e: "free_resources_loop idx ex = free_resources_loop (Suc idx) ex"
        using lt False by (rule free_resources_loop_skip)
      show ?thesis unfolding e using "1.IH"(2) [OF lt refl False] .
    qed
  qed
qed

lemma free_resources_fields:
  "idle_time (free_resources ex) = idle_time ex"
  "prev_time (free_resources ex) = prev_time ex"
  "current_time (free_resources ex) = current_time ex"
  "time_to_seppuku (free_resources ex) = time_to_seppuku ex"
  "time_to_accept_jobs (free_resources ex) = time_to_accept_jobs ex"
  "connection_time_with_server (free_resources ex) = connection_time_with_server ex"
  "trace (free_resources ex) = trace ex"
  unfolding free_resources_def
  by (subst free_resources_loop_frame, simp)+

lemma free_resources_ledger: "procs_ledger_ok ex \<Longrightarrow> procs_ledger_ok (free_resources ex)"
  unfolding free_resources_def by (rule free_resources_loop_ledger)

lemma free_resources_children:
  "set (runningChildren (free_resources ex)) \<subseteq> set (runningChildren ex)"
  unfolding free_resources_def by (rule free_resources_loop_children)

subsection \<open>The idleness invariant\<close>

lemma idle_inv_free_resources:
  assumes "idle_inv ex"
  shows "idle_inv (free_resources ex)"
proof -
  from assms have l: "procs_ledger_ok ex" by (simp add: idle_inv_def)
  then have l': "procs_ledger_ok (free_resources ex)" by (rule free_resources_ledger)
  have "runningProcs (free_resources ex) = 0" if "idle_time ex \<noteq> 0"
  proof -
    from that assms have "runningProcs ex = 0" by (simp add: idle_inv_def)
    then have "list_all zero_procs (runningChildren ex)"
      using procs_ledger_zero [OF l] by simp
    then have "list_all zero_procs (runningChildren (free_resources ex))"
      using free_resources_children [of ex] by (auto simp: list_all_iff)
    then show ?thesis using procs_ledger_zero [OF l'] by simp
  qed
  then show ?thesis using l' by (simp add: idle_inv_def free_resources_fields)
qed

lemma idle_inv_tick:
  "idle_inv ex \<Longrightarrow> idle_inv (ex\<lparr>prev_time := p, current_time := c\<rparr>)"
  by (auto simp: idle_inv_def procs_ledger_ok_def)

lemma idle_inv_after_sweep: "idle_inv ex \<Longrightarrow> idle_inv (after_sweep t ex)"
  unfolding after_sweep_def by (intro idle_inv_free_resources idle_inv_tick)

lemma idle_inv_accrue: "idle_inv ex \<Longrightarrow> idle_inv (snd (accrue_idle ex))"
  by (auto simp: idle_inv_def procs_ledger_ok_def accrue_idle_def idle_def Let_def
           split: option.splits)

lemma idle_inv_dispatch:
  "idle_inv ex \<Longrightarrow> 0 \<le> stage_procs t \<Longrightarrow> idle_inv (snd (dispatch t ex))"
  by (auto simp: idle_inv_def procs_ledger_ok_def dispatch_def emit_def Let_def nonneg_procs_def)

lemma mainFn_after_sweep:
  "mainFn t ex =
     (case accrue_idle (after_sweep t ex) of
        (Raised e, ex3) \<Rightarrow> (Raised e, ex3)
      | (Returned b, ex3) \<Rightarrow>
          if is_seppuku_time ex3 then (Returned False, ex3)
          else (case is_time_to_drain (drain_time t) ex3 of
                  Inl e \<Rightarrow> (Raised e, ex3)
                | Inr True \<Rightarrow> (Returned False, ex3)
                | Inr False \<Rightarrow> dispatch t ex3))"
  by (simp add: mainFn_def after_sweep_def Let_def)

lemma idle_inv_mainFn:
  assumes "idle_inv ex" "0 \<le> stage_procs t"
  shows "idle_inv (snd (mainFn t ex))"
proof -
  have "idle_inv (after_sweep t ex)" using assms(1) by (rule idle_inv_after_sweep)
  then have 3: "idle_inv (snd (accrue_idle (after_sweep t ex)))" by (rule idle_inv_accrue)
  obtain r ex3 where a: "accrue_idle (after_sweep t ex) = (r, ex3)"
    by (cases "accrue_idle (after_sweep t ex)")
  with 3 have i3: "idle_inv ex3" by simp
  have d: "idle_inv (snd (dispatch t ex3))" using i3 assms(2) by (rule idle_inv_dispatch)
  show ?thesis
    using a i3 d
    by (simp add: mainFn_after_sweep split: outcome.splits sum.splits bool.splits)
qed

lemma idle_inv_callback: "idle_inv ex \<Longrightarrow> idle_inv (apply_callback cb ex)"
proof (cases cb)
  case (ResultReady i)
  assume "idle_inv ex"
  moreover have "map child_procs (map (\<lambda>c. if stage c = i then c\<lparr>result_ready := True\<rparr> else c) xs)
      = map child_procs xs" for xs :: "ChildProcess list" by (induction xs) auto
  ultimately show ?thesis using ResultReady
    by (auto simp: idle_inv_def procs_ledger_ok_def result_becomes_ready_def list_all_iff
                   nonneg_procs_def simp del: map_map)
qed (auto simp: idle_inv_def procs_ledger_ok_def addPIDtoRunningList_def
          removePIDfromRunningList_def notifyStageTerminated_def emit_def)

lemma idle_inv_callbacks: "idle_inv ex \<Longrightarrow> idle_inv (apply_callbacks cbs ex)"
  by (induction cbs arbitrary: ex) (simp_all add: idle_inv_callback)

lemma idle_inv_boundary:
  "idle_inv ex \<Longrightarrow> list_all nonneg_round rs \<Longrightarrow> idle_inv (boundary rs ex)"
proof (induction rs arbitrary: ex)
  case Nil
  then show ?case by simp
next
  case (Cons r rs)
  show ?case
  proof (cases r)
    case Interrupt
    then show ?thesis using Cons.prems by simp
  next
    case (Round cbs t)
    with Cons.prems have nn: "0 \<le> stage_procs t" and rest: "list_all nonneg_round rs"
      by simp_all
    have i: "idle_inv (snd (mainFn t (apply_callbacks cbs ex)))"
      using Cons.prems(1) nn by (intro idle_inv_mainFn idle_inv_callbacks)
    obtain out ex' where m: "mainFn t (apply_callbacks cbs ex) = (out, ex')"
      by (cases "mainFn t (apply_callbacks cbs ex)")
    with i have i': "idle_inv ex'" by simp
    show ?thesis
    proof (cases out)
      case (Returned b)
      then show ?thesis using Round m i' Cons.IH [OF i' rest] by (cases b) simp_all
    next
      case (Raised e)
      then show ?thesis using Round m i' by simp
    qed
  qed
qed

lemma idle_inv_connect: "idle_inv (connect env uri (pipelineExecutor_init opts))"
  by (simp add: idle_inv_def procs_ledger_ok_def pipelineExecutor_init_def connect_def
        emit_def Let_def)

text \<open>An iteration moves the idle clock only if the counters read zero after the sweep.\<close>

lemma dispatch_idle_time:
  "idle_time (snd (dispatch t ex)) = idle_time ex \<or> idle_time (snd (dispatch t ex)) = 0"
  by (simp add: dispatch_def emit_def Let_def)

lemma mainFn_idle_time:
  "idle (after_sweep t ex) \<or>
   idle_time (snd (mainFn t ex)) = idle_time ex \<or> idle_time (snd (mainFn t ex)) = 0"
proof (cases "idle (after_sweep t ex)")
  case True
  then show ?thesis by simp
next
  case False
  then have a: "accrue_idle (after_sweep t ex) = (Returned True, after_sweep t ex)"
    by (simp add: accrue_idle_def)
  have i: "idle_time (after_sweep t ex) = idle_time ex"
    by (simp add: after_sweep_def free_resources_fields)
  show ?thesis
    using dispatch_idle_time [of t "after_sweep t ex"] i
    by (auto simp: mainFn_after_sweep a split: sum.splits bool.splits)
qed

subsection \<open>Histories of the race\<close>

lemma unset_precedes_unregister_snoc:
  "unset_precedes_unregister (h @ [e]) =
     (unset_precedes_unregister h \<and> (e = Unregister \<longrightarrow> Unset \<in> set h))"
proof
  assume a: "unset_precedes_unregister (h @ [e])"
  have "unset_precedes_unregister h"
    unfolding unset_precedes_unregister_def
  proof (intro allI impI)
    fix pre post assume "h = pre @ Unregister # post"
    then have "h @ [e] = pre @ Unregister # (post @ [e])" by simp
    with a show "Unset \<in> set pre" unfolding unset_precedes_unregister_def by blast
  qed
  moreover have "e = Unregister \<longrightarrow> Unset \<in> set h"
  proof
    assume "e = Unregister"
    then have "h @ [e] = h @ Unregister # []" by simp
    with a show "Unset \<in> set h" unfolding unset_precedes_unregister_def by blast
  qed
  ultimately show "unset_precedes_unregister h \<and> (e = Unregister \<longrightarrow> Unset \<in> set h)" ..
next
  assume a: "unset_precedes_unregister h \<and> (e = Unregister \<longrightarrow> Unset \<in> set h)"
  show "unset_precedes_unregister (h @ [e])"
    unfolding unset_precedes_unregister_def
  proof (intro allI impI)
    fix pre post assume d: "h @ [e] = pre @ Unregister # post"
    show "Unset \<in> set pre"
    proof (cases post rule: rev_cases)
      case Nil
      with d have "pre = h" "e = Unregister" by auto
      with a show ?thesis by simp
    next
      case (snoc post' e')
      with d have "h = pre @ Unregister # post'" by auto
      with a show ?thesis unfolding unset_precedes_unregister_def by blast
    qed
  qed
qed

lemma read_after_unset_snoc:
  "read_after_unset (h @ [e]) =
     (read_after_unset h \<or> (Unset \<in> set h \<and> (\<exists>b. e = HeartbeatRead b)))"
proof
  assume "read_after_unset (h @ [e])"
  then obtain pre mid b post where d: "h @ [e] = pre @ Unset # mid @ HeartbeatRead b # post"
    unfolding read_after_unset_def by blast
  show "read_after_unset h \<or> (Unset \<in> set h \<and> (\<exists>b. e = HeartbeatRead b))"
  proof (cases post rule: rev_cases)
    case Nil
    with d have "h @ [e] = (pre @ Unset # mid) @ [HeartbeatRead b]" by simp
    then have "h = pre @ Unset # mid" "e = HeartbeatRead b" by (simp_all only: append1_eq_conv)
    then show ?thesis by auto
  next
    case (snoc post' e')
    with d have "h @ [e] = (pre @ Unset # mid @ HeartbeatRead b # post') @ [e']" by simp
    then have "h = pre @ Unset # mid @ HeartbeatRead b # post'" by (simp only: append1_eq_conv)
    then show ?thesis unfolding read_after_unset_def by blast
  qed
next
  assume "read_after_unset h \<or> (Unset \<in> set h \<and> (\<exists>b. e = HeartbeatRead b))"
  then show "read_after_unset (h @ [e])"
  proof
    assume "read_after_unset h"
    then obtain pre mid b post where "h = pre @ Unset # mid @ HeartbeatRead b # post"
      unfolding read_after_unset_def by blast
    then have "h @ [e] = pre @ Unset # mid @ HeartbeatRead b # (post @ [e])" by simp
    then show ?thesis unfolding read_after_unset_def by blast
  next
    assume a: "Unset \<in> set h \<and> (\<exists>b. e = HeartbeatRead b)"
    then obtain pre mid where "h = pre @ Unset # mid" by (meson split_list)
    moreover from a obtain b where "e = HeartbeatRead b" by blast
    ultimately have "h @ [e] = pre @ Unset # mid @ HeartbeatRead b # []" by simp
    then show ?thesis unfolding read_after_unset_def by blast
  qed
qed

lemma late_reads_quiet_snoc:
  "late_reads_quiet (h @ [e]) =
     (late_reads_quiet h \<and> (read_after_unset h \<longrightarrow> e \<noteq> HeartbeatCall) \<and>
      (Unset \<in> set h \<longrightarrow> e \<noteq> HeartbeatRead True))"
proof
  assume a: "late_reads_quiet (h @ [e])"
  have 1: "late_reads_quiet h"
    unfolding late_reads_quiet_def
  proof (intro allI impI)
    fix pre mid b post assume "h = pre @ Unset # mid @ HeartbeatRead b # post"
    then have "h @ [e] = pre @ Unset # mid @ HeartbeatRead b # (post @ [e])" by simp
    with a have "\<not> b \<and> HeartbeatCall \<notin> set (post @ [e])"
      unfolding late_reads_quiet_def by blast
    then show "\<not> b \<and> HeartbeatCall \<notin> set post" by simp
  qed
  have 2: "read_after_unset h \<longrightarrow> e \<noteq> HeartbeatCall"
  proof
    assume "read_after_unset h"
    then obtain pre mid b post where "h = pre @ Unset # mid @ HeartbeatRead b # post"
      unfolding read_after_unset_def by blast
    then have "h @ [e] = pre @ Unset # mid @ HeartbeatRead b # (post @ [e])" by simp
    with a have "\<not> b \<and> HeartbeatCall \<notin> set (post @ [e])"
      unfolding late_reads_quiet_def by blast
    then show "e \<noteq> HeartbeatCall" by auto
  qed
  have 3: "Unset \<in> set h \<longrightarrow> e \<noteq> HeartbeatRead True"
  proof (intro impI notI)
    assume "Unset \<in> set h" and e: "e = HeartbeatRead True"
    then obtain pre mid where "h = pre @ Unset # mid" by (meson split_list)
    with e have "h @ [e] = pre @ Unset # mid @ HeartbeatRead True # []" by simp
    with a show False unfolding late_reads_quiet_def by blast
  qed
  from 1 2 3 show "late_reads_quiet h \<and> (read_after_unset h \<longrightarrow> e \<noteq> HeartbeatCall) \<and>
      (Unset \<in> set h \<longrightarrow> e \<noteq> HeartbeatRead True)" by blast
next
  assume a: "late_reads_quiet h \<and> (read_after_unset h \<longrightarrow> e \<noteq> HeartbeatCall) \<and>
      (Unset \<in> set h \<longrightarrow> e \<noteq> HeartbeatRead True)"
  show "late_reads_quiet (h @ [e])"
    unfolding late_reads_quiet_def
  proof (intro allI impI)
    fix pre mid b post assume d: "h @ [e] = pre @ Unset # mid @ HeartbeatRead b # post"
    show "\<not> b \<and> HeartbeatCall \<notin> set post"
    proof (cases post rule: rev_cases)
      case Nil
      with d have "h @ [e] = (pre @ Unset # mid) @ [HeartbeatRead b]" by simp
      then have "h = pre @ Unset # mid" "e = HeartbeatRead b" by (simp_all only: append1_eq_conv)
      with a Nil show ?thesis by auto
    next
      case (snoc post' e')
      with d have "h @ [e] = (pre @ Unset # mid @ HeartbeatRead b # post') @ [e']" by simp
      then have h: "h = pre @ Unset # mid @ HeartbeatRead b # post'" and e: "e = e'"
        by (simp_all only: append1_eq_conv)
      from h have "read_after_unset h" unfolding read_after_unset_def by blast
      moreover from h a have "\<not> b \<and> HeartbeatCall \<notin> set post'"
        unfolding late_reads_quiet_def by blast
      ultimately show ?thesis using a snoc e by auto
    qed
  qed
qed

lemma history_nil:
  "unset_precedes_unregister []" "\<not> read_after_unset []" "late_reads_quiet []"
  by (simp_all add: unset_precedes_unregister_def read_after_unset_def late_reads_quiet_def)

lemmas history_snoc =
  unset_precedes_unregister_snoc read_after_unset_snoc late_reads_quiet_snoc

lemma race_inv_start: "race_inv (race_start h)"
  by (simp add: race_inv_def race_start_def history_nil)

lemma race_inv_unregister: "race_inv c \<Longrightarrow> race_inv (unregister_step c)"
  unfolding race_inv_def unregister_step_def
  by (cases "unregister_at c") (auto simp: history_snoc split: if_splits)

lemma race_inv_heartbeat: "race_inv c \<Longrightarrow> race_inv (heartbeat_step r c)"
  unfolding race_inv_def heartbeat_step_def
  by (cases "heartbeat_at c") (auto simp: history_snoc split: if_splits)

lemma race_inv_run: "race_inv c \<Longrightarrow> race_inv (race_run ts c)"
proof (induction ts arbitrary: c)
  case Nil
  then show ?case by simp
next
  case (Cons t ts)
  then show ?case by (cases t) (simp_all add: race_inv_unregister race_inv_heartbeat)
qed

subsection \<open>Frame facts for one iteration\<close>

lemma accrue_idle_fields:
  "time_to_seppuku (snd (accrue_idle ex)) = time_to_seppuku ex"
  "time_to_accept_jobs (snd (accrue_idle ex)) = time_to_accept_jobs ex"
  "connection_time_with_server (snd (accrue_idle ex)) = connection_time_with_server ex"
  "trace (snd (accrue_idle ex)) = trace ex"
  by (simp_all add: accrue_idle_def Let_def split: option.splits)

lemma accrue_idle_raises:
  "fst (accrue_idle ex) = Raised e \<Longrightarrow> current_time ex \<noteq> None \<Longrightarrow> time_to_seppuku ex = None"
  by (auto simp: accrue_idle_def idle_def truthy_def Let_def split: option.splits if_splits)

lemma dispatch_fields:
  "time_to_seppuku (snd (dispatch t ex)) = time_to_seppuku ex"
  by (simp add: dispatch_def emit_def Let_def)

lemma mainFn_time_to_seppuku: "time_to_seppuku (snd (mainFn t ex)) = time_to_seppuku ex"
proof -
  let ?ex2 = "free_resources (ex\<lparr>prev_time := current_time ex, current_time := Some (tick_time t)\<rparr>)"
  obtain r ex3 where a: "accrue_idle ?ex2 = (r, ex3)" by (cases "accrue_idle ?ex2")
  then have "time_to_seppuku ex3 = time_to_seppuku ex"
    using accrue_idle_fields(1) [of ?ex2] by (simp add: free_resources_fields)
  then show ?thesis using a
    by (simp add: mainFn_def Let_def dispatch_fields
             split: outcome.splits sum.splits bool.splits)
qed

lemma apply_callback_time_to_seppuku:
  "time_to_seppuku (apply_callback cb ex) = time_to_seppuku ex"
  by (cases cb)
     (simp_all add: addPIDtoRunningList_def removePIDfromRunningList_def
        notifyStageTerminated_def result_becomes_ready_def emit_def)

lemma apply_callbacks_time_to_seppuku:
  "time_to_seppuku (apply_callbacks cbs ex) = time_to_seppuku ex"
  by (induction cbs arbitrary: ex) (simp_all add: apply_callback_time_to_seppuku)

lemma boundary_time_to_seppuku: "time_to_seppuku (boundary rs ex) = time_to_seppuku ex"
proof (induction rs arbitrary: ex)
  case Nil
  then show ?case by simp
next
  case (Cons r rs)
  show ?case
  proof (cases r)
    case Interrupt
    then show ?thesis by simp
  next
    case (Round cbs t)
    obtain out ex' where m: "mainFn t (apply_callbacks cbs ex) = (out, ex')"
      by (cases "mainFn t (apply_callbacks cbs ex)")
    then have "time_to_seppuku ex' = time_to_seppuku ex"
      using mainFn_time_to_seppuku [of t "apply_callbacks cbs ex"]
      by (simp add: apply_callbacks_time_to_seppuku)
    then show ?thesis using Round m Cons.IH [of ex']
      by (cases out) (simp_all split: bool.splits)
  qed
qed

lemma is_seppuku_time_configured:
  "time_to_seppuku ex = Some minutes \<Longrightarrow>
     is_seppuku_time ex = (real_of_int minutes * 60 < idle_time ex)"
  by (simp add: is_seppuku_time_def)

lemma is_seppuku_time_unconfigured: "time_to_seppuku ex = None \<Longrightarrow> \<not> is_seppuku_time ex"
  by (simp add: is_seppuku_time_def)

lemma mainFn_stops_when_over_limit:
  assumes "time_to_seppuku ex = Some minutes" "0 \<le> minutes"
    and "real_of_int minutes * 60 < idle_time (snd (mainFn t ex))"
  shows "fst (mainFn t ex) = Returned False"
proof -
  let ?ex2 = "free_resources (ex\<lparr>prev_time := current_time ex, current_time := Some (tick_time t)\<rparr>)"
  obtain r ex3 where a: "accrue_idle ?ex2 = (r, ex3)" by (cases "accrue_idle ?ex2")
  have s3: "time_to_seppuku ex3 = Some minutes"
    using a accrue_idle_fields(1) [of ?ex2] assms(1) by (simp add: free_resources_fields)
  have "r \<noteq> Raised e" for e
    using accrue_idle_raises [of ?ex2 e] a assms(1) by (auto simp: free_resources_fields)
  then obtain b where r: "r = Returned b" by (cases r) auto
  show ?thesis
  proof (cases "is_seppuku_time ex3")
    case True
    then show ?thesis using a r by (simp add: mainFn_def Let_def)
  next
    case False
    then have le: "idle_time ex3 \<le> real_of_int minutes * 60"
      using s3 by (simp add: is_seppuku_time_def)
    have "idle_time (snd (dispatch t ex3)) \<le> real_of_int minutes * 60"
      using dispatch_idle_time [of t ex3] le assms(2) by auto
    then have "idle_time (snd (mainFn t ex)) \<le> real_of_int minutes * 60"
      using a r False le
      by (simp add: mainFn_def Let_def split: sum.splits bool.splits)
    with assms(3) show ?thesis by simp
  qed
qed

lemma unregister_with_server_ok: "fst (unregister_with_server True ex) = None"
  by (simp add: unregister_with_server_def Let_def)

section \<open>The claims\<close>

subsection \<open>Admission (C1)\<close>

text \<open>
  Claim C1, as amended. \<open>canRun(stageMem, stageProcs, runningMem, runningProcs)\<close> is
  true exactly when \<open>stageMem\<close> is at most the float difference \<open>mem - runningMem\<close>
  as the machine computes it, that is the exact difference rounded to the nearest float,
  and \<open>stageProcs \<le> procs - runningProcs\<close>. A stage asking for exactly the computed
  difference is admitted when its processes fit, and one asking for more than the
  computed difference is not. Every request that fits exactly is admitted: if
  \<open>stageMem\<close> is a float and \<open>stageMem \<le> mem - runningMem\<close> holds of the real
  numbers, \<open>canRun\<close> is true. The converse fails by the rounding error.
\<close>

theorem canRun_computed_difference:
  "canRun ex stageMem stageProcs running_mem running_procs =
     (stageMem \<le> fsub (mem ex) running_mem \<and> stageProcs \<le> procs ex - running_procs) \<and>
   canRun ex (fsub (mem ex) running_mem) stageProcs running_mem running_procs =
     (stageProcs \<le> procs ex - running_procs) \<and>
   (fsub (mem ex) running_mem < stageMem \<longrightarrow>
      \<not> canRun ex stageMem stageProcs running_mem running_procs) \<and>
   (is_double stageMem \<and> stageMem \<le> mem ex - running_mem \<and>
    stageProcs \<le> procs ex - running_procs \<longrightarrow>
      canRun ex stageMem stageProcs running_mem running_procs)"
  using round_double_mono_double [of stageMem "mem ex - running_mem"]
  by (auto simp: canRun_def fsub_def)

theorem canRun_computed_difference_witness:
  "is_double 4 \<and> fsub (mem (started (parse_args no_flags))) 2 = 4 \<and>
   canRun (started (parse_args no_flags)) 4 1 2 0 \<and>
   \<not> canRun (started (parse_args no_flags)) 5 1 2 0"
  using canRun_computed_difference [of "started (parse_args no_flags)" 5 1 2 0]
    canRun_computed_difference [of "started (parse_args no_flags)" 4 1 2 0]
  by (simp add: scenario_defs Let_def float_int is_double_int)

text \<open>
  The claim as first stated (the inequality on the exact difference) fails. Take the
  default budget \<open>mem = 6.0\<close> with \<open>runningMem = 0.1\<close> and a stage asking for \<open>5.9\<close>.
  All three are floats. The exact difference is below \<open>5.9\<close>, the float subtraction
  rounds it up to \<open>5.9\<close>, and \<open>canRun\<close> admits the stage.
\<close>

theorem canRun_admits_above_exact_difference:
  "is_double double_5_9 \<and> is_double double_0_1 \<and>
   mem (started (parse_args no_flags)) = 6 \<and>
   canRun (started (parse_args no_flags)) double_5_9 1 double_0_1 0 \<and>
   \<not> double_5_9 \<le> mem (started (parse_args no_flags)) - double_0_1"
proof -
  have m: "mem (started (parse_args no_flags)) = 6" "procs (started (parse_args no_flags)) = 1"
    by (simp_all add: scenario_defs Let_def)
  have "canRun (started (parse_args no_flags)) double_5_9 1 double_0_1 0"
    by (simp add: canRun_def m fsub_6_double_0_1)
  moreover have "\<not> double_5_9 \<le> mem (started (parse_args no_flags)) - double_0_1"
    by (simp add: m double_5_9_def double_0_1_def)
  ultimately show ?thesis using is_double_5_9 is_double_0_1 m by simp
qed

subsection \<open>Stage outcome reports (C3)\<close>

text \<open>
  Claim C3. A stage outcome report is \<open>setStageFinished\<close> exactly when the return code
  is \<open>0\<close>, and \<open>setStageFailed\<close> in every other case: another exit code, no return code
  (\<open>None\<close>), or an exception raised while the stage was run. For \<open>runStage\<close>, once
  \<open>setStageStarted\<close> has gone through, exactly one report follows it, and it is
  \<open>setStageFinished\<close> only if the \<open>try\<close> block ended without exception and with
  \<open>process.returncode = 0\<close>.
\<close>

theorem finished_iff_exit_code_zero:
  "trace (notifyStageTerminated i returncode ex) =
     trace ex @ [if returncode = Some 0 then SetStageFinished i (clientURI ex)
                 else SetStageFailed i (clientURI ex), EventSet] \<and>
   (started_ok run \<longrightarrow>
      trace (snd (runStage i run ex)) =
        trace ex @ [SetStageStarted i (clientURI ex),
                    if body run = Inr 0 then SetStageFinished i (clientURI ex)
                    else SetStageFailed i (clientURI ex),
                    EventSet, GetStageMem i, GetStageProcs i])"
  by (auto simp: notifyStageTerminated_def runStage_def emit_def Let_def split: sum.splits)

theorem finished_iff_exit_code_zero_witness:
  "trace (snd (runStage 7 \<lparr>started_ok = True, body = Inr 1\<rparr> (started (parse_args no_flags)))) =
     [RegisterClient ''PYRO:executor@node'' 6, PoolCreate 1,
      SetStageStarted 7 ''PYRO:executor@node'', SetStageFailed 7 ''PYRO:executor@node'',
      EventSet, GetStageMem 7, GetStageProcs 7] \<and>
   trace (snd (runStage 7 \<lparr>started_ok = True, body = Inr 0\<rparr> (started (parse_args no_flags)))) =
     [RegisterClient ''PYRO:executor@node'' 6, PoolCreate 1,
      SetStageStarted 7 ''PYRO:executor@node'', SetStageFinished 7 ''PYRO:executor@node'',
      EventSet, GetStageMem 7, GetStageProcs 7] \<and>
   trace (snd (runStage 7 \<lparr>started_ok = True, body = Inl IOError\<rparr> (started (parse_args no_flags)))) =
     [RegisterClient ''PYRO:executor@node'' 6, PoolCreate 1,
      SetStageStarted 7 ''PYRO:executor@node'', SetStageFailed 7 ''PYRO:executor@node'',
      EventSet, GetStageMem 7, GetStageProcs 7]"
  using finished_iff_exit_code_zero [of 7 "Some 1" "started (parse_args no_flags)"
          "\<lparr>started_ok = True, body = Inr 1\<rparr>"]
        finished_iff_exit_code_zero [of 7 "Some 0" "started (parse_args no_flags)"
          "\<lparr>started_ok = True, body = Inr 0\<rparr>"]
        finished_iff_exit_code_zero [of 7 None "started (parse_args no_flags)"
          "\<lparr>started_ok = True, body = Inl IOError\<rparr>"]
  by (simp add: scenario_defs Let_def)

subsection \<open>Unregistering while the heartbeat runs (C7)\<close>

text \<open>
  Claim C7. Start with the executor registered and let \<open>unregister_with_server\<close> and
  \<open>heartbeat\<close> run under any schedule. In the history of every run, each
  \<open>unregisterClient\<close> call has the write \<open>registered_with_server = False\<close> before it,
  and the flag is still false once the call has been made. A heartbeat that reads the
  flag after that write reads \<open>False\<close>, and no \<open>updateClientTimestamp\<close> follows such
  a read.
\<close>

theorem unset_before_unregister:
  assumes "c = race_run schedule (race_start h)"
  shows "unset_precedes_unregister (history c) \<and> late_reads_quiet (history c) \<and>
         (Unregister \<in> set (history c) \<longrightarrow> \<not> registered c)"
proof -
  have "race_inv c" unfolding assms using race_inv_start by (rule race_inv_run)
  then show ?thesis
    by (auto simp: race_inv_def unset_precedes_unregister_def split: if_splits)
qed

theorem unset_before_unregister_witness:
  "history (race_run [HeartbeatThread False, MainThread, MainThread, HeartbeatThread False,
                      MainThread, HeartbeatThread False, HeartbeatThread False,
                      HeartbeatThread False] (race_start H_test)) =
     [HeartbeatRead True, Unset, HeartbeatCall, Unregister, HeartbeatRead False] \<and>
   unset_precedes_unregister
     [HeartbeatRead True, Unset, HeartbeatCall, Unregister, HeartbeatRead False] \<and>
   late_reads_quiet
     [HeartbeatRead True, Unset, HeartbeatCall, Unregister, HeartbeatRead False]"
  using unset_before_unregister [of _ "[HeartbeatThread False, MainThread, MainThread,
      HeartbeatThread False, MainThread, HeartbeatThread False, HeartbeatThread False,
      HeartbeatThread False]" H_test, OF refl]
  by (simp add: race_start_def unregister_step_def heartbeat_step_def)

subsection \<open>Idle time and running children (C9)\<close>

text \<open>
  Claim C9, as amended. \<open>idle\<close> looks at the two counters, not at the list of children.
  An iteration of \<open>mainFn\<close> moves the idle clock only if \<open>runningMem\<close> and
  \<open>runningProcs\<close> both read zero after the sweep; otherwise it leaves \<open>idle_time\<close> as
  it was or resets it to zero. The process counter is exact, so at every loop boundary
  reached from a freshly connected executor, when the server never reports a negative
  process count, a non-zero \<open>idle_time\<close> implies that \<open>runningProcs\<close> is zero and that
  every child still in \<open>runningChildren\<close> reserves zero processes. Such a child does
  not stop the idle clock when the memory counter reads zero, be it because the child
  reserves no memory or because the float counter has absorbed what it reserves.
\<close>

theorem idle_only_with_zero_counters:
  assumes "list_all nonneg_round rs"
    and "ex = boundary rs (connect env uri (pipelineExecutor_init opts))"
  shows "(idle_time ex \<noteq> 0 \<longrightarrow>
            runningProcs ex = 0 \<and> list_all zero_procs (runningChildren ex)) \<and>
         (idle (after_sweep t ex) \<or>
          idle_time (snd (mainFn t ex)) = idle_time ex \<or> idle_time (snd (mainFn t ex)) = 0)"
proof -
  have "idle_inv ex" unfolding assms(2) using idle_inv_connect assms(1) by (rule idle_inv_boundary)
  then show ?thesis using procs_ledger_zero [of ex] mainFn_idle_time [of t ex]
    by (simp add: idle_inv_def)
qed

text \<open>
  The claim as first stated (positive idle time implies no running children) fails: the
  executor is handed stage 1 with reservation \<open>(0, 0)\<close> at time 1001 and told to wait
  at time 1006. The child is still running, and five seconds of idle time are on the
  clock.
\<close>

theorem idle_with_running_child:
  "0 < idle_time (boundary [Round [] (run_stage_tick 1001 1 0 0), Round [] (wait_tick 1006)]
                    (started (parse_args no_flags))) \<and>
   runningChildren (boundary [Round [] (run_stage_tick 1001 1 0 0), Round [] (wait_tick 1006)]
                    (started (parse_args no_flags))) =
     [\<lparr>stage = 1, result_ready = False, child_mem = 0, child_procs = 0\<rparr>]"
  by (simp add: scenario_defs mainFn_defs free_resources_loop.simps)

text \<open>
  The amended claim at work where the memory counter absorbs a reservation: stage 1
  reserves \<open>(6.0, 1)\<close>, stage 2 reserves \<open>(1e-16, 0)\<close>, and stage 1 completes. The
  counter went \<open>6.0\<close>, \<open>6.0\<close>, \<open>0.0\<close>, so the executor is idle and the clock runs
  while the child of stage 2 is listed.
\<close>

theorem idle_only_with_zero_counters_witness:
  "idle_time (boundary [Round [] (run_stage_tick 1001 1 6 1),
                        Round [] (run_stage_tick 1002 2 double_1e_16 0),
                        Round [ResultReady 1] (wait_tick 1003)]
                (started (parse_args no_flags))) = 1 \<and>
   runningMem (boundary [Round [] (run_stage_tick 1001 1 6 1),
                         Round [] (run_stage_tick 1002 2 double_1e_16 0),
                         Round [ResultReady 1] (wait_tick 1003)]
                (started (parse_args no_flags))) = 0 \<and>
   runningProcs (boundary [Round [] (run_stage_tick 1001 1 6 1),
                           Round [] (run_stage_tick 1002 2 double_1e_16 0),
                           Round [ResultReady 1] (wait_tick 1003)]
                (started (parse_args no_flags))) = 0 \<and>
   runningChildren (boundary [Round [] (run_stage_tick 1001 1 6 1),
                              Round [] (run_stage_tick 1002 2 double_1e_16 0),
                              Round [ResultReady 1] (wait_tick 1003)]
                (started (parse_args no_flags))) =
     [\<lparr>stage = 2, result_ready = False, child_mem = double_1e_16, child_procs = 0\<rparr>]"
proof -
  let ?rs = "[Round [] (run_stage_tick 1001 1 6 1),
              Round [] (run_stage_tick 1002 2 double_1e_16 0),
              Round [ResultReady 1] (wait_tick 1003)]"
  have r: "list_all nonneg_round ?rs" by (simp add: scenario_defs)
  have i: "idle_time (boundary ?rs (started (parse_args no_flags))) = 1"
      "runningMem (boundary ?rs (started (parse_args no_flags))) = 0"
      "runningChildren (boundary ?rs (started (parse_args no_flags))) =
         [\<lparr>stage = 2, result_ready = False, child_mem = double_1e_16, child_procs = 0\<rparr>]"
    by (simp_all add: scenario_defs mainFn_defs free_resources_loop.simps
          result_becomes_ready_def fadd_6_double_1e_16)
  show ?thesis
    using idle_only_with_zero_counters [OF r, of _ "test_env []" server_uri
        "parse_args no_flags" "wait_tick 1004", OF refl] i
    by (simp add: started_def)
qed

subsection \<open>The sweep skips a child (C2)\<close>

text \<open>
  Claim C2: one call of \<open>free_resources\<close> reaps every completed child. The code does
  not: removing the child at the iterator's position shifts its successor into that
  position, and the iterator moves past it. With two completed children in a row, the
  call removes the first, subtracts its reservation, and leaves the second in the list
  with its reservation still counted. The same state is reached from a fresh executor
  with two processes that is given stages 1 and 2, both of which complete before the
  third round.
\<close>

theorem free_resources_leaves_ready_child:
  "free_resources
     ((started (parse_args no_flags))
        \<lparr>runningMem := 3, runningProcs := 2,
         runningChildren :=
           [\<lparr>stage = 1, result_ready = True, child_mem = 1, child_procs = 1\<rparr>,
            \<lparr>stage = 2, result_ready = True, child_mem = 2, child_procs = 1\<rparr>]\<rparr>)
   = (started (parse_args no_flags))
        \<lparr>runningMem := 2, runningProcs := 1,
         runningChildren :=
           [\<lparr>stage = 2, result_ready = True, child_mem = 2, child_procs = 1\<rparr>]\<rparr> \<and>
   runningChildren
     (boundary [Round [] (run_stage_tick 1001 1 3 1), Round [] (run_stage_tick 1002 2 3 1),
                Round [ResultReady 1, ResultReady 2] (wait_tick 1003)]
        (started (parse_args (no_flags\<lparr>arg_proc := Some 2\<rparr>))))
   = [\<lparr>stage = 2, result_ready = True, child_mem = 3, child_procs = 1\<rparr>]"
  by (simp add: scenario_defs mainFn_defs free_resources_loop.simps result_becomes_ready_def)

subsection \<open>The drain deadline (C4)\<close>

text \<open>
  Claim C4: with \<open>time_to_accept_jobs\<close> configured, every iteration in which the time
  since the connection exceeds the limit returns stop and fetches no further work. The
  code compares the limit with the whole minutes elapsed, \<open>limit < minutes_so_far\<close>, so
  for a full minute past the limit the drain check is still false. With a limit of 2
  minutes and a connection at time 1000, the iterations at 130 and at 179 seconds ask
  the server for a command and return \<open>True\<close>; only from 180 seconds on does \<open>mainFn\<close>
  return \<open>False\<close> without a remote call. The help text of \<open>--time-to-accept-jobs\<close>
  promises that the executor accepts no new jobs after the given number of minutes, and
  \<open>is_seppuku_time\<close> compares its limit in exact seconds.
\<close>

theorem drain_not_at_limit:
  "is_time_to_drain 1130 (started (parse_args (no_flags\<lparr>arg_time_to_accept_jobs := Some 2\<rparr>)))
     = Inr False \<and>
   fst (mainFn (wait_tick 1130)
          (started (parse_args (no_flags\<lparr>arg_time_to_accept_jobs := Some 2\<rparr>))))
     = Returned True \<and>
   trace (snd (mainFn (wait_tick 1130)
          (started (parse_args (no_flags\<lparr>arg_time_to_accept_jobs := Some 2\<rparr>)))))
     = [RegisterClient ''PYRO:executor@node'' 6, PoolCreate 1,
        GetCommand ''PYRO:executor@node'' 6 1] \<and>
   fst (mainFn (run_stage_tick 1179 7 3 1)
          (started (parse_args (no_flags\<lparr>arg_time_to_accept_jobs := Some 2\<rparr>))))
     = Returned True \<and>
   trace (snd (mainFn (run_stage_tick 1179 7 3 1)
          (started (parse_args (no_flags\<lparr>arg_time_to_accept_jobs := Some 2\<rparr>)))))
     = [RegisterClient ''PYRO:executor@node'' 6, PoolCreate 1,
        GetCommand ''PYRO:executor@node'' 6 1, GetStageMem 7, GetStageProcs 7, ApplyAsync 7] \<and>
   mainFn (wait_tick 1180)
          (started (parse_args (no_flags\<lparr>arg_time_to_accept_jobs := Some 2\<rparr>)))
     = (Returned False,
        (started (parse_args (no_flags\<lparr>arg_time_to_accept_jobs := Some 2\<rparr>)))
          \<lparr>prev_time := None, current_time := Some 1180\<rparr>)"
  by (simp add: scenario_defs mainFn_defs free_resources_loop.simps)

subsection \<open>Idleness without a limit (C5)\<close>

text \<open>
  Claim C5: with \<open>time_to_seppuku = None\<close> the main loop never stops on account of
  idleness. \<open>is_seppuku_time\<close> is indeed false then (\<open>is_seppuku_time_unconfigured\<close>),
  and with a limit it is true exactly when the idle seconds exceed sixty times the limit
  (\<open>is_seppuku_time_configured\<close>). But the idle branch of \<open>mainFn\<close> evaluates
  \<open>self.time_to_seppuku * 60\<close> for its log line: the second round of an executor that
  has nothing to do raises \<open>TypeError\<close>, the loop ends, and \<open>launchExecutor\<close> tears
  the executor down through its \<open>except Exception\<close> clause.
\<close>

theorem idle_without_limit_raises:
  "map_option fst
     (mainLoop [Round [] (wait_tick 1001), Round [] (wait_tick 1002)]
        (started ((parse_args no_flags)\<lparr>opt_time_to_seppuku := None\<rparr>)))
   = Some (Raised TypeError) \<and>
   map_option fst
     (launchExecutor (test_env [Round [] (wait_tick 1001), Round [] (wait_tick 1002)])
        (pipelineExecutor_init ((parse_args no_flags)\<lparr>opt_time_to_seppuku := None\<rparr>)))
   = Some (SysExit (Some 0))"
  by (simp add: scenario_defs mainFn_defs free_resources_loop.simps launchExecutor_def
        generalShutdownCall_def unregister_with_server_def)

subsection \<open>Exit status (C6)\<close>

text \<open>
  Claim C6, as amended. The exit status is zero in every case the claim names. With a
  negative executor count the script prints the message and ends through \<open>sys.exit()\<close>,
  whose status is 0, without starting any executor, hence without server discovery. An
  executor that was registered, and whose \<open>unregisterClient\<close> call returns, ends
  through \<open>sys.exit(0)\<close> when the main loop raised (an operator interrupt or any other
  exception) and by returning when the main loop finished: status 0 either way.
\<close>

theorem exit_status_always_zero:
  "(num_exec (parse_args c) < 0 \<longrightarrow>
      script_main c = ([Print no_exec_message], SysExit None) \<and>
      exit_status (snd (script_main c)) = 0) \<and>
   (server_lookup env = Some uri \<and> register_ok env \<and> unregister_ok env \<and>
    mainLoop (rounds env) (connect env uri ex) = Some (how, ex') \<longrightarrow>
      map_option fst (launchExecutor env ex) =
        Some (case how of Raised e \<Rightarrow> SysExit (Some 0) | Returned b \<Rightarrow> FellOffEnd) \<and>
      map_option (exit_status \<circ> fst) (launchExecutor env ex) = Some 0)"
proof -
  have 1: "num_exec (parse_args c) < 0 \<longrightarrow>
      script_main c = ([Print no_exec_message], SysExit None) \<and>
      exit_status (snd (script_main c)) = 0"
    by (simp add: script_main_def noExecSpecified_def Let_def)
  have 2: "map_option fst (launchExecutor env ex) =
        Some (case how of Raised e \<Rightarrow> SysExit (Some 0) | Returned b \<Rightarrow> FellOffEnd) \<and>
      map_option (exit_status \<circ> fst) (launchExecutor env ex) = Some 0"
    if a: "server_lookup env = Some uri" "register_ok env" "unregister_ok env"
      "mainLoop (rounds env) (connect env uri ex) = Some (how, ex')"
  proof (cases how)
    case (Returned b)
    obtain r ex5 where u: "completeAndExitChildren True ex' = (r, ex5)"
      by (cases "completeAndExitChildren True ex'")
    then have "r = None"
      using unregister_with_server_ok by (metis completeAndExitChildren_def fst_conv)
    then show ?thesis using a Returned u by (simp add: launchExecutor_def Let_def)
  next
    case (Raised e)
    obtain r ex5 where u: "generalShutdownCall True ex' = (r, ex5)"
      by (cases "generalShutdownCall True ex'")
    then have "r = None"
      using unregister_with_server_ok by (metis generalShutdownCall_def fst_conv)
    then show ?thesis using a Raised u by (cases e) (simp_all add: launchExecutor_def Let_def)
  qed
  from 1 2 show ?thesis by blast
qed

theorem exit_status_always_zero_witness:
  "script_main no_flags = ([Print no_exec_message], SysExit None) \<and>
   map_option fst (launchExecutor (test_env [Interrupt]) (pipelineExecutor_init (parse_args no_flags)))
     = Some (SysExit (Some 0)) \<and>
   map_option fst (launchExecutor (test_env [Round [] (shutdown_tick 1001)])
       (pipelineExecutor_init (parse_args no_flags)))
     = Some FellOffEnd"
proof -
  have n: "num_exec (parse_args no_flags) < 0" by (simp add: scenario_defs)
  have i: "mainLoop (rounds (test_env [Interrupt]))
      (connect (test_env [Interrupt]) server_uri (pipelineExecutor_init (parse_args no_flags)))
      = Some (Raised KeyboardInterrupt,
         connect (test_env [Interrupt]) server_uri (pipelineExecutor_init (parse_args no_flags)))"
    by (simp add: test_env_def)
  obtain ex' where s: "mainLoop (rounds (test_env [Round [] (shutdown_tick 1001)]))
      (connect (test_env [Round [] (shutdown_tick 1001)]) server_uri
         (pipelineExecutor_init (parse_args no_flags))) = Some (Returned False, ex')"
    by (simp add: scenario_defs mainFn_defs free_resources_loop.simps)
  show ?thesis
    using exit_status_always_zero [of no_flags "test_env [Interrupt]" server_uri
        "pipelineExecutor_init (parse_args no_flags)" "Raised KeyboardInterrupt"
        "connect (test_env [Interrupt]) server_uri (pipelineExecutor_init (parse_args no_flags))"]
      exit_status_always_zero [of no_flags "test_env [Round [] (shutdown_tick 1001)]" server_uri
        "pipelineExecutor_init (parse_args no_flags)" "Returned False" ex']
      n i s
    by (simp add: test_env_def)
qed

text \<open>
  The claim as first stated wants a non-zero status for a missing \<open>--num-executors\<close> and
  for a fatal exception in the main loop. Both give 0: no flag on the command line, a
  communication error from \<open>getCommand\<close>, an invalid command from the server.
\<close>

theorem exits_zero_where_nonzero_claimed:
  "exit_status (snd (script_main no_flags)) = 0 \<and>
   map_option (exit_status \<circ> fst)
     (launchExecutor (test_env [Round [] ((wait_tick 1001)\<lparr>rpc_fails := True\<rparr>)])
        (pipelineExecutor_init (parse_args no_flags))) = Some 0 \<and>
   map_option (exit_status \<circ> fst)
     (launchExecutor (test_env [Round [] ((wait_tick 1001)\<lparr>cmd := ''dance''\<rparr>)])
        (pipelineExecutor_init (parse_args no_flags))) = Some 0"
  by (simp add: scenario_defs mainFn_defs free_resources_loop.simps script_main_def
        noExecSpecified_def launchExecutor_def generalShutdownCall_def
        unregister_with_server_def)

subsection \<open>Graceful teardown (C8)\<close>

text \<open>
  Claim C8: after a normal exit from the main loop the executor waits for all outstanding
  children before it calls \<open>unregisterClient\<close>, also when a stage has been submitted to
  the pool and its process is not spawned yet. \<open>completeAndExitChildren\<close> closes and
  joins the pool only if \<open>current_running_job_pids\<close> is non-empty, and a stage that is
  submitted but not spawned has no pid there. The executor is given stage 7 and, in the
  next round, told to shut down: it unregisters at once, with neither \<open>pool.close()\<close>
  nor \<open>pool.join()\<close>, while the child of stage 7 is still in \<open>runningChildren\<close>.
\<close>

theorem teardown_skips_pool_join:
  "map_option (trace \<circ> snd)
     (launchExecutor (test_env [Round [] (run_stage_tick 1001 7 3 1), Round [] (shutdown_tick 1002)])
        (pipelineExecutor_init (parse_args no_flags)))
   = Some [RegisterClient ''PYRO:executor@node'' 6, PoolCreate 1,
           GetCommand ''PYRO:executor@node'' 6 1, GetStageMem 7, GetStageProcs 7, ApplyAsync 7,
           GetCommand ''PYRO:executor@node'' 3 0,
           UnregisterClient ''PYRO:executor@node'', DaemonShutdown] \<and>
   map_option (runningChildren \<circ> snd)
     (launchExecutor (test_env [Round [] (run_stage_tick 1001 7 3 1), Round [] (shutdown_tick 1002)])
        (pipelineExecutor_init (parse_args no_flags)))
   = Some [\<lparr>stage = 7, result_ready = False, child_mem = 3, child_procs = 1\<rparr>]"
  by (simp add: scenario_defs mainFn_defs free_resources_loop.simps launchExecutor_def
        completeAndExitChildren_def unregister_with_server_def)

subsection \<open>The default idle limit (C10)\<close>

text \<open>
  Claim C10. When \<open>--time-to-seppuku\<close> is not passed, \<open>time_to_seppuku\<close> is 1 and not
  \<open>None\<close>, at every loop boundary of the executor built from these options. So
  \<open>is_seppuku_time\<close> holds exactly when \<open>idle_time\<close> exceeds 60 seconds, and an
  iteration that leaves more than 60 seconds on the idle clock returns \<open>False\<close>: the
  executor stops itself.
\<close>

theorem default_seppuku_after_one_minute:
  assumes "arg_time_to_seppuku c = None"
    and "ex = boundary rs (connect env uri (pipelineExecutor_init (parse_args c)))"
  shows "time_to_seppuku ex = Some 1 \<and>
         is_seppuku_time ex = (60 < idle_time ex) \<and>
         (60 < idle_time (snd (mainFn t (apply_callbacks cbs ex))) \<longrightarrow>
            fst (mainFn t (apply_callbacks cbs ex)) = Returned False)"
proof -
  have s: "time_to_seppuku ex = Some 1"
    unfolding assms(2) boundary_time_to_seppuku using assms(1)
    by (simp add: connect_def emit_def Let_def pipelineExecutor_init_def parse_args_def)
  then have "time_to_seppuku (apply_callbacks cbs ex) = Some 1"
    by (simp add: apply_callbacks_time_to_seppuku)
  from mainFn_stops_when_over_limit [OF this, of t] s show ?thesis
    by (simp add: is_seppuku_time_def)
qed

theorem default_seppuku_after_one_minute_witness:
  "time_to_seppuku (boundary [Round [] (wait_tick 1001), Round [] (wait_tick 1061)]
      (started (parse_args no_flags))) = Some 1 \<and>
   \<not> is_seppuku_time (boundary [Round [] (wait_tick 1001), Round [] (wait_tick 1061)]
      (started (parse_args no_flags))) \<and>
   idle_time (snd (mainFn (wait_tick 1062) (boundary [Round [] (wait_tick 1001), Round [] (wait_tick 1061)]
      (started (parse_args no_flags))))) = 61 \<and>
   fst (mainFn (wait_tick 1062) (boundary [Round [] (wait_tick 1001), Round [] (wait_tick 1061)]
      (started (parse_args no_flags)))) = Returned False"
proof -
  have i: "idle_time (snd (mainFn (wait_tick 1062) (boundary [Round [] (wait_tick 1001), Round [] (wait_tick 1061)]
      (started (parse_args no_flags))))) = 61"
    by (simp add: scenario_defs mainFn_defs free_resources_loop.simps)
  have j: "idle_time (boundary [Round [] (wait_tick 1001), Round [] (wait_tick 1061)]
      (started (parse_args no_flags))) = 60"
    by (simp add: scenario_defs mainFn_defs free_resources_loop.simps)
  show ?thesis
    using default_seppuku_after_one_minute [of no_flags _ "[Round [] (wait_tick 1001), Round [] (wait_tick 1061)]"
        "test_env []" server_uri "wait_tick 1062" "[]", OF _ refl] i j
    by (simp add: started_def no_flags_def)
qed

end
